theory Spec2Isabelle
  imports Main "HOL-Library.Char_ord" "HOL-Library.List_Lexorder" "HOL-Library.Multiset"
begin

section \<open>Take names: the string operations used by the add-take handler\<close>

text \<open>
  The dialog is Python 2 code; a take name is modelled as a list of 8-bit characters.
  The character classes of the four \<open>re.sub\<close> calls only look at ASCII letters,
  digits, the underscore, the hyphen and the six ASCII white-space characters, and the
  model follows them for every character. \<open>title\<close> is modelled on ASCII letters: the
  model is what the handler computes for ASCII text. In the unicode string that the input
  dialog returns, \<open>title()\<close> also treats a letter outside ASCII as a letter (the letter
  after it is lower-cased) before the third step removes it; the model treats such a
  character as uncased.
\<close>

definition islower :: "char \<Rightarrow> bool" where
  "islower c = (97 \<le> (of_char c :: nat) \<and> (of_char c :: nat) \<le> 122)"

definition isupper :: "char \<Rightarrow> bool" where
  "isupper c = (65 \<le> (of_char c :: nat) \<and> (of_char c :: nat) \<le> 90)"

definition isdigit :: "char \<Rightarrow> bool" where
  "isdigit c = (48 \<le> (of_char c :: nat) \<and> (of_char c :: nat) \<le> 57)"

definition isspace :: "char \<Rightarrow> bool" where
  \<comment> \<open>\<open>\s\<close> of the \<open>re\<close> module without flags: space, \<open>\t \n \v \f \r\<close>\<close>
  "isspace c = ((of_char c :: nat) = 32 \<or> (9 \<le> (of_char c :: nat) \<and> (of_char c :: nat) \<le> 13))"

definition toupper :: "char \<Rightarrow> char" where
  "toupper c = (if islower c then char_of ((of_char c :: nat) - 32) else c)"

definition tolower :: "char \<Rightarrow> char" where
  "tolower c = (if isupper c then char_of ((of_char c :: nat) + 32) else c)"

text \<open>
  \<open>str.title()\<close>: one pass that remembers whether the previous character was a letter;
  a letter after a non-letter is upper-cased, a letter after a letter is lower-cased.
\<close>

fun title_from :: "bool \<Rightarrow> string \<Rightarrow> string" where
  "title_from previous_is_cased [] = []"
| "title_from previous_is_cased (c # s) =
     (if islower c then
        (if \<not> previous_is_cased then toupper c else c) # title_from True s
      else if isupper c then
        (if previous_is_cased then tolower c else c) # title_from True s
      else c # title_from False s)"

definition title :: "string \<Rightarrow> string" where
  "title s = title_from False s"

text \<open>
  \<open>re.sub(r'[cls]+', repl, s)\<close> for a character class: every maximal run of characters
  of the class is replaced by \<open>repl\<close>, scanning from the left.
\<close>

function re_sub_runs :: "(char \<Rightarrow> bool) \<Rightarrow> string \<Rightarrow> string \<Rightarrow> string" where
  "re_sub_runs cls repl [] = []"
| "re_sub_runs cls repl (c # s) =
     (if cls c then repl @ re_sub_runs cls repl (dropWhile cls s)
      else c # re_sub_runs cls repl s)"
  by pat_completeness auto
termination
  by (relation "measure (\<lambda>(cls, repl, s). length s)")
     (auto simp: length_dropWhile_le less_Suc_eq_le)

definition is_underscore :: "char \<Rightarrow> bool" where
  "is_underscore c = (c = CHR ''_'')"

definition is_space_or_hyphen :: "char \<Rightarrow> bool" where
  "is_space_or_hyphen c = (isspace c \<or> c = CHR ''-'')"

definition is_not_word :: "char \<Rightarrow> bool" where
  \<comment> \<open>the class \<open>[^a-zA-Z0-9_]\<close>\<close>
  "is_not_word c = (\<not> (islower c \<or> isupper c \<or> isdigit c \<or> c = CHR ''_''))"

text \<open>
  \<open>re.sub(r'[_]+$', '', s)\<close>: \<open>$\<close> matches at the end of the string and also just
  before a newline that is the last character, so a run of underscores in front of a
  final newline is removed as well.
\<close>

definition re_sub_underscores_at_end :: "string \<Rightarrow> string" where
  "re_sub_underscores_at_end s =
     (case rev s of
        [] \<Rightarrow> []
      | c # r \<Rightarrow>
          if c = CHR 0x0A \<and> r \<noteq> [] \<and> is_underscore (hd r)
          then rev (dropWhile is_underscore r) @ [c]
          else rev (dropWhile is_underscore (rev s)))"

text \<open>Lines 1244 to 1249 of \<open>add_take_toolButton_clicked\<close>: the five rewriting steps.\<close>

definition normalize_take_name :: "string \<Rightarrow> string" where
  "normalize_take_name raw =
     (let take_name = title raw;
          take_name = re_sub_runs is_space_or_hyphen ''_'' take_name;
          take_name = re_sub_runs is_not_word [] take_name;
          take_name = re_sub_runs is_underscore ''_'' take_name;
          take_name = re_sub_underscores_at_end take_name
      in take_name)"


section \<open>Data model: the entities the dialog reads from the database\<close>

text \<open>
  Projects, tasks, statuses and versions are rows of the studio database. The dialog
  compares them with \<open>==\<close>; here two rows are equal when all their fields, the
  identifier included, are equal. Only the fields the dialog reads are kept.
\<close>

record project =
  project_id :: nat
  project_name :: string
  active :: bool

record task =
  task_id :: nat
  task_name :: string
  project :: project

datatype entity = Project project | Task task

fun entity_name :: "entity \<Rightarrow> string" where
  "entity_name (Project p) = project_name p"
| "entity_name (Task t) = task_name t"

record status =
  status_name :: string

record version =
  version_id :: nat
  task :: task
  take_name :: string
  version_number :: int
  is_published :: bool
  status :: status

datatype error = IndexError | AttributeError

section \<open>The state of the dialog\<close>

text \<open>
  The widgets the handlers read and write, and the table of versions in the database.
  A tree item is represented by the entity attached to it (\<open>item.stalker_entity\<close>), a
  list item by its text; the current item of a widget is its row, and the current row of
  the versions table is \<open>-1\<close> when no row is current, as \<open>currentRow()\<close> reports it.
\<close>

record ui =
  db :: "version list"
  tasks_treeWidget :: "entity list"
  tasks_treeWidget_current :: "nat option"
  takes_listWidget :: "string list"
  takes_listWidget_current :: "nat option"
  versions :: "version list"
  previous_versions_tableWidget_currentRow :: int
  statuses_comboBox :: "string list"
  statuses_comboBox_currentIndex :: int
  show_published_only_checkBox :: bool
  version_count_spinBox :: nat

text \<open>Modelled from the spec: \<open>defaults.version_take_name\<close>, the default take, is "Main".\<close>

definition version_take_name :: string where
  "version_take_name = ''Main''"

subsection \<open>Queries\<close>

fun first_index :: "('a \<Rightarrow> bool) \<Rightarrow> 'a list \<Rightarrow> nat option" where
  "first_index P [] = None"
| "first_index P (x # xs) =
     (if P x then Some 0 else map_option Suc (first_index P xs))"

definition first :: "'a list \<Rightarrow> 'a option" where
  \<comment> \<open>\<open>query.first()\<close>\<close>
  "first xs = (case xs of [] \<Rightarrow> None | x # _ \<Rightarrow> Some x)"

definition distinct_values :: "'a list \<Rightarrow> 'a list" where
  \<comment> \<open>\<open>query(distinct(...)).all()\<close>: every value once. SQL leaves the order open; here
      the rows are read in storage order and a value is kept where it first occurs.\<close>
  "distinct_values xs = rev (remdups (rev xs))"

definition query_versions :: "version list \<Rightarrow> task \<Rightarrow> string \<Rightarrow> version list" where
  \<comment> \<open>\<open>Version.query.filter(Version.task == task).filter(Version.take_name == take_name)\<close>\<close>
  "query_versions rows t tk = filter (\<lambda>v. task v = t \<and> take_name v = tk) rows"

definition order_by_version_number_desc :: "version list \<Rightarrow> version list" where
  \<comment> \<open>\<open>order_by(Version.version_number.desc())\<close>; rows with equal numbers keep their order\<close>
  "order_by_version_number_desc vs = sort_key (\<lambda>v. - version_number v) vs"

subsection \<open>The widgets\<close>

definition tasks_treeWidget_currentItem :: "ui \<Rightarrow> entity option" where
  "tasks_treeWidget_currentItem st =
     (case tasks_treeWidget_current st of
        None \<Rightarrow> None
      | Some i \<Rightarrow> if i < length (tasks_treeWidget st) then Some (tasks_treeWidget st ! i) else None)"

definition takes_listWidget_currentItem :: "ui \<Rightarrow> string option" where
  "takes_listWidget_currentItem st =
     (case takes_listWidget_current st of
        None \<Rightarrow> None
      | Some i \<Rightarrow> if i < length (takes_listWidget st) then Some (takes_listWidget st ! i) else None)"

definition takes_listWidget_item :: "ui \<Rightarrow> nat \<Rightarrow> nat option" where
  \<comment> \<open>\<open>item(row)\<close> is \<open>None\<close> outside the list\<close>
  "takes_listWidget_item st i = (if i < length (takes_listWidget st) then Some i else None)"

definition takes_listWidget_addItems :: "ui \<Rightarrow> string list \<Rightarrow> ui" where
  "takes_listWidget_addItems st texts = st\<lparr>takes_listWidget := takes_listWidget st @ texts\<rparr>"

definition takes_listWidget_findItems :: "ui \<Rightarrow> string \<Rightarrow> nat list" where
  \<comment> \<open>\<open>findItems(text, MatchExactly)\<close>: the rows whose text equals \<open>text\<close>, in order\<close>
  "takes_listWidget_findItems st text =
     filter (\<lambda>i. takes_listWidget st ! i = text) [0..<length (takes_listWidget st)]"

definition takes_listWidget_sortItems :: "ui \<Rightarrow> ui" where
  \<comment> \<open>\<open>sortItems()\<close>: ascending by text; the current item stays current at its new row.
      Qt compares the texts with the collation of the locale; the order here, by character
      code, is that of the C locale.\<close>
  "takes_listWidget_sortItems st =
     (let sorting = sort_key fst (zip (takes_listWidget st) [0..<length (takes_listWidget st)])
      in st\<lparr>takes_listWidget := map fst sorting,
             takes_listWidget_current :=
               (case takes_listWidget_current st of
                  None \<Rightarrow> None
                | Some i \<Rightarrow> first_index (\<lambda>p. snd p = i) sorting)\<rparr>)"

definition findText :: "string list \<Rightarrow> string \<Rightarrow> int" where
  \<comment> \<open>\<open>QComboBox.findText(text, MatchExactly)\<close>: the first index, or \<open>-1\<close>\<close>
  "findText items text =
     (case first_index (\<lambda>x. x = text) items of None \<Rightarrow> - 1 | Some i \<Rightarrow> int i)"

definition statuses_comboBox_currentText :: "ui \<Rightarrow> string" where
  \<comment> \<open>\<open>currentText()\<close>: the text of the current entry, empty when there is none\<close>
  "statuses_comboBox_currentText st =
     (let i = statuses_comboBox_currentIndex st
      in if 0 \<le> i \<and> i < int (length (statuses_comboBox st))
         then statuses_comboBox st ! nat i else [])"

section \<open>The handlers\<close>

definition set_status :: "ui \<Rightarrow> status \<Rightarrow> ui" where
  "set_status st s =
     (let index = findText (statuses_comboBox st) (status_name s)
      in if index \<noteq> - 1 then st\<lparr>statuses_comboBox_currentIndex := index\<rparr> else st)"

definition clear_previous_versions_tableWidget :: "ui \<Rightarrow> ui" where
  \<comment> \<open>\<open>QTableWidget.clear()\<close> drops the items and the current index; then the cache is emptied\<close>
  "clear_previous_versions_tableWidget st =
     st\<lparr>previous_versions_tableWidget_currentRow := - 1, versions := []\<rparr>"

definition get_task :: "ui \<Rightarrow> task option" where
  "get_task st =
     (case tasks_treeWidget_currentItem st of
        None \<Rightarrow> None
      | Some (Project p) \<Rightarrow> None
      | Some (Task t) \<Rightarrow> Some t)"

definition current_take_name :: "ui \<Rightarrow> string" where
  \<comment> \<open>\<open>take_name = ""; item = currentItem(); if item: take_name = item.text()\<close>\<close>
  "current_take_name st =
     (case takes_listWidget_currentItem st of None \<Rightarrow> [] | Some text \<Rightarrow> text)"

definition update_previous_versions_tableWidget :: "ui \<Rightarrow> ui" where
  "update_previous_versions_tableWidget st0 =
     (let st = clear_previous_versions_tableWidget st0
      in case get_task st of
           None \<Rightarrow> st
         | Some t \<Rightarrow>
             let tk = current_take_name st
             in if tk = [] then st
                else
                  let query = query_versions (db st) t tk;
                      query = (if show_published_only_checkBox st
                               then filter (\<lambda>v. is_published v = True) query else query);
                      count = version_count_spinBox st;
                      vs = rev (take count (order_by_version_number_desc query));
                      st = st\<lparr>versions := vs\<rparr>
                  in if vs \<noteq> [] then set_status st (status (last vs)) else st)"

definition takes_listWidget_changed :: "ui \<Rightarrow> ui" where
  "takes_listWidget_changed st0 =
     (let st = update_previous_versions_tableWidget st0;
          tk = current_take_name st
      in case get_task st of
           None \<Rightarrow> st
         | Some t \<Rightarrow>
             (case first (order_by_version_number_desc (query_versions (db st) t tk)) of
                None \<Rightarrow> st
              | Some v \<Rightarrow> set_status st (status v)))"

text \<open>
  \<open>takes_listWidget\<close> is connected to \<open>takes_listWidget_changed\<close> through
  \<open>currentTextChanged\<close>, which the widget emits when its current item changes: setting
  the item that is already current emits nothing, and \<open>clear()\<close> emits it when there was
  a current item.
\<close>

definition takes_listWidget_setCurrentItem :: "ui \<Rightarrow> nat option \<Rightarrow> ui" where
  "takes_listWidget_setCurrentItem st item =
     (if takes_listWidget_current st = item then st
      else takes_listWidget_changed (st\<lparr>takes_listWidget_current := item\<rparr>))"

definition takes_listWidget_clear :: "ui \<Rightarrow> ui" where
  "takes_listWidget_clear st =
     (if takes_listWidget_current st = None then st\<lparr>takes_listWidget := []\<rparr>
      else (takes_listWidget_changed (st\<lparr>takes_listWidget_current := None\<rparr>))
             \<lparr>takes_listWidget := []\<rparr>)"

definition tasks_treeWidget_changed :: "ui \<Rightarrow> ui" where
  "tasks_treeWidget_changed st0 =
     (case tasks_treeWidget_currentItem st0 of
        None \<Rightarrow> st0
      | Some e \<Rightarrow>
          let st = takes_listWidget_clear st0
          in case e of
               Project p \<Rightarrow> st
             | Task t \<Rightarrow>
                 let takes = distinct_values (map take_name (filter (\<lambda>v. task v = t) (db st)));
                     takes = (if version_take_name \<notin> set takes
                              then takes @ [version_take_name] else takes);
                     st = (if length takes = 0
                           then takes_listWidget_addItems st [version_take_name]
                           else takes_listWidget_addItems st takes)
                 in takes_listWidget_setCurrentItem st (takes_listWidget_item st 0))"

text \<open>
  \<open>tasks_treeWidget\<close> is connected to \<open>tasks_treeWidget_changed\<close> through
  \<open>currentItemChanged\<close>, emitted only when the current item changes.
\<close>

definition tasks_treeWidget_setCurrentItem :: "ui \<Rightarrow> nat \<Rightarrow> ui" where
  "tasks_treeWidget_setCurrentItem st item =
     (if tasks_treeWidget_current st = Some item then st
      else tasks_treeWidget_changed (st\<lparr>tasks_treeWidget_current := Some item\<rparr>))"

definition find_entity_item_in_tree_widget :: "entity \<Rightarrow> entity list \<Rightarrow> nat option" where
  "find_entity_item_in_tree_widget e treeWidget =
     (let items = filter (\<lambda>i. entity_name (treeWidget ! i) = entity_name e)
                    [0..<length treeWidget]
      in List.find (\<lambda>i. treeWidget ! i = e) items)"

definition restore_ui :: "ui \<Rightarrow> version option \<Rightarrow> error + ui" where
  "restore_ui st0 reference =
     (case reference of
        None \<Rightarrow> Inr st0
      | Some v \<Rightarrow>
          if \<not> active (project (task v)) then Inr st0
          else
            (case find_entity_item_in_tree_widget (Task (task v)) (tasks_treeWidget st0) of
               None \<Rightarrow> Inr st0
             | Some item \<Rightarrow>
                 let st = tasks_treeWidget_setCurrentItem st0 item;
                     items = takes_listWidget_findItems st (take_name v)
                 in (case items of
                       [] \<Rightarrow> Inl IndexError
                     | item0 # _ \<Rightarrow>
                         let st = takes_listWidget_setCurrentItem st (Some item0);
                             index = (case first_index (\<lambda>prev_version. prev_version = v)
                                             (versions st) of
                                        None \<Rightarrow> - 1 | Some i \<Rightarrow> int i)
                         in if index \<noteq> - 1
                            then Inr (st\<lparr>previous_versions_tableWidget_currentRow := index\<rparr>)
                            else Inr st)))"

text \<open>
  \<open>add_take_toolButton_clicked\<close>; the answer of the input dialog, the text and the
  \<open>ok\<close> flag, is the second argument. The handler reads the text of the current take
  before it opens the dialog.
\<close>

definition add_take_toolButton_clicked :: "ui \<Rightarrow> string \<times> bool \<Rightarrow> error + ui" where
  "add_take_toolButton_clicked st0 answer =
     (case takes_listWidget_currentItem st0 of
        None \<Rightarrow> Inl AttributeError
      | Some current_take \<Rightarrow>
          let (raw, ok) = answer
          in if ok then
               if raw \<noteq> [] then
                 let tk = normalize_take_name raw;
                     in_list = fold (\<lambda>text in_list. if text = tk then True else in_list)
                                 (takes_listWidget st0) False
                 in if \<not> in_list then
                      let st = takes_listWidget_addItems st0 [tk];
                          st = takes_listWidget_sortItems st;
                          items = takes_listWidget_findItems st tk
                      in (case items of
                            [] \<Rightarrow> Inr st
                          | item # _ \<Rightarrow> Inr (takes_listWidget_setCurrentItem st (Some item)))
                    else Inr st0
               else Inr st0
             else Inr st0)"

definition get_previous_version :: "ui \<Rightarrow> version option" where
  \<comment> \<open>\<open>versions[index]\<close> with Python's negative indices; \<open>IndexError\<close> is caught\<close>
  "get_previous_version st =
     (let index = previous_versions_tableWidget_currentRow st;
          n = int (length (versions st))
      in if 0 \<le> index \<and> index < n then Some (versions st ! nat index)
         else if - n \<le> index \<and> index < 0 then Some (versions st ! nat (n + index))
         else None)"

section \<open>Notions used to state and prove the properties\<close>

text \<open>No two neighbouring characters are both \<open>u\<close>.\<close>

fun no_adjacent :: "char \<Rightarrow> string \<Rightarrow> bool" where
  "no_adjacent u [] = True"
| "no_adjacent u [a] = True"
| "no_adjacent u (a # b # s) = (\<not> (a = u \<and> b = u) \<and> no_adjacent u (b # s))"

text \<open>
  A string is title-cased when every letter that follows a letter is lower case and every
  other letter is upper case: the strings that \<open>title\<close> leaves alone.
\<close>

fun titled :: "bool \<Rightarrow> string \<Rightarrow> bool" where
  "titled previous_is_cased [] = True"
| "titled previous_is_cased (c # s) =
     (if islower c then previous_is_cased \<and> titled True s
      else if isupper c then \<not> previous_is_cased \<and> titled True s
      else titled False s)"

text \<open>The take name after the first four rewriting steps.\<close>

definition collapsed :: "string \<Rightarrow> string" where
  "collapsed raw = re_sub_runs is_underscore ''_''
     (re_sub_runs is_not_word [] (re_sub_runs is_space_or_hyphen ''_'' (title raw)))"

text \<open>
  The listing as the design document derives it: all versions of the task and take, only the
  published ones when asked, newest first, cut to the limit, then reversed.
\<close>

definition list_versions_reference ::
  "version list \<Rightarrow> task \<Rightarrow> string \<Rightarrow> bool \<Rightarrow> nat \<Rightarrow> version list" where
  "list_versions_reference rows t tk published_only limit =
     (let all_versions = filter (\<lambda>v. task v = t \<and> take_name v = tk) rows;
          kept = (if published_only then filter is_published all_versions else all_versions);
          newest_first = sort_key (\<lambda>v. - version_number v) kept;
          window = take limit newest_first
      in rev window)"

text \<open>
  A dialog to run the handlers on: one project with one task that has five versions of the
  take "Main", stored out of order; the dialog has just been opened, the default take is
  selected and no task is.
\<close>

definition example_project :: project where
  "example_project = \<lparr>project_id = 1, project_name = ''Show'', active = True\<rparr>"

definition example_task :: task where
  "example_task = \<lparr>task_id = 2, task_name = ''Anim'', project = example_project\<rparr>"

definition example_version :: "int \<Rightarrow> string \<Rightarrow> bool \<Rightarrow> string \<Rightarrow> version" where
  "example_version n tk published s =
     \<lparr>version_id = nat n, task = example_task, take_name = tk, version_number = n,
      is_published = published, status = \<lparr>status_name = s\<rparr>\<rparr>"

definition example_ui :: ui where
  "example_ui =
     \<lparr>db = [example_version 3 ''Main'' True ''CMPL'', example_version 1 ''Main'' True ''CMPL'',
            example_version 5 ''Main'' False ''WIP'', example_version 2 ''Main'' False ''WIP'',
            example_version 4 ''Main'' True ''CMPL''],
      tasks_treeWidget = [Project example_project, Task example_task],
      tasks_treeWidget_current = None,
      takes_listWidget = [''Main''],
      takes_listWidget_current = Some 0,
      versions = [],
      previous_versions_tableWidget_currentRow = - 1,
      statuses_comboBox = [''NEW'', ''WIP'', ''CMPL''],
      statuses_comboBox_currentIndex = 0,
      show_published_only_checkBox = False,
      version_count_spinBox = 3\<rparr>"

section \<open>Properties of the take-name rewriting steps\<close>

lemma islower_toupper: "islower c \<Longrightarrow> isupper (toupper c) \<and> \<not> islower (toupper c)"
  by (auto simp: islower_def isupper_def toupper_def)

lemma isupper_tolower: "isupper c \<Longrightarrow> islower (tolower c) \<and> \<not> isupper (tolower c)"
  by (auto simp: islower_def isupper_def tolower_def)

lemma islower_not_isupper: "islower c \<Longrightarrow> \<not> isupper c"
  by (auto simp: islower_def isupper_def)

lemma re_sub_runs_filter: "re_sub_runs cls [] s = filter (\<lambda>c. \<not> cls c) s"
proof (induction cls "[] :: string" s rule: re_sub_runs.induct)
  case (1 cls)
  then show ?case by simp
next
  case (2 cls c s)
  have "filter (\<lambda>c. \<not> cls c) (dropWhile cls s) = filter (\<lambda>c. \<not> cls c) s"
    by (induction s) auto
  with 2 show ?case by simp
qed

lemma set_re_sub_runs: "set (re_sub_runs cls repl s) \<subseteq> set repl \<union> {c \<in> set s. \<not> cls c}"
proof (induction cls repl s rule: re_sub_runs.induct)
  case (1 cls repl)
  then show ?case by simp
next
  case (2 cls repl c s)
  have "set (dropWhile cls s) \<subseteq> set s"
    by (simp add: set_dropWhileD subsetI)
  with 2 show ?case by auto
qed

lemma re_sub_runs_head:
  "s \<noteq> [] \<Longrightarrow> \<not> cls (hd s) \<Longrightarrow> hd (re_sub_runs cls repl s) = hd s \<and> re_sub_runs cls repl s \<noteq> []"
  by (cases s) auto

lemma no_adjacent_Cons:
  "no_adjacent u (a # s) = ((s \<noteq> [] \<longrightarrow> \<not> (a = u \<and> hd s = u)) \<and> no_adjacent u s)"
  by (cases s) auto

lemma no_adjacent_collapse: "no_adjacent CHR ''_'' (re_sub_runs is_underscore ''_'' s)"
proof (induction is_underscore "''_''" s rule: re_sub_runs.induct)
  case 1
  then show ?case by simp
next
  case (2 c s)
  show ?case
  proof (cases "is_underscore c")
    case True
    let ?d = "dropWhile is_underscore s"
    have ih: "no_adjacent CHR ''_'' (re_sub_runs is_underscore ''_'' ?d)"
      using 2 True by simp
    have "re_sub_runs is_underscore ''_'' ?d \<noteq> [] \<Longrightarrow> hd (re_sub_runs is_underscore ''_'' ?d) \<noteq> CHR ''_''"
    proof -
      assume ne: "re_sub_runs is_underscore ''_'' ?d \<noteq> []"
      then have dne: "?d \<noteq> []" by (metis re_sub_runs.simps(1))
      then have nh: "\<not> is_underscore (hd ?d)" by (rule hd_dropWhile)
      with dne have "hd (re_sub_runs is_underscore ''_'' ?d) = hd ?d"
        by (simp add: re_sub_runs_head)
      with nh show ?thesis by (simp add: is_underscore_def)
    qed
    with ih True show ?thesis
      by (simp add: no_adjacent_Cons)
  next
    case False
    with 2 show ?thesis
      by (simp add: no_adjacent_Cons is_underscore_def)
  qed
qed

lemma no_adjacent_append: "no_adjacent u (xs @ ys) \<Longrightarrow> no_adjacent u xs"
  by (induction u xs rule: no_adjacent.induct) (auto simp: no_adjacent_Cons)

lemma no_adjacent_iff: "no_adjacent u s \<longleftrightarrow> \<not> (\<exists>p q. s = p @ [u, u] @ q)"
proof (induction u s rule: no_adjacent.induct)
  case (1 u)
  then show ?case by simp
next
  case (2 u a)
  then show ?case by simp
next
  case (3 u a b s)
  show ?case
  proof
    assume l: "no_adjacent u (a # b # s)"
    show "\<not> (\<exists>p q. a # b # s = p @ [u, u] @ q)"
    proof
      assume "\<exists>p q. a # b # s = p @ [u, u] @ q"
      then obtain p q where e: "a # b # s = p @ [u, u] @ q" by blast
      show False
      proof (cases p)
        case Nil
        with e l show ?thesis by simp
      next
        case (Cons x p')
        with e have "b # s = p' @ [u, u] @ q" by simp
        then have "\<exists>p q. b # s = p @ [u, u] @ q" by blast
        moreover from l have "no_adjacent u (b # s)" by simp
        ultimately show ?thesis using 3 by blast
      qed
    qed
  next
    assume r: "\<not> (\<exists>p q. a # b # s = p @ [u, u] @ q)"
    have "\<not> (a = u \<and> b = u)"
    proof
      assume "a = u \<and> b = u"
      then have "a # b # s = [] @ [u, u] @ s" by simp
      with r show False by blast
    qed
    moreover have "\<not> (\<exists>p q. b # s = p @ [u, u] @ q)"
    proof
      assume "\<exists>p q. b # s = p @ [u, u] @ q"
      then obtain p q where "b # s = p @ [u, u] @ q" by blast
      then have "a # b # s = (a # p) @ [u, u] @ q" by simp
      with r show False by blast
    qed
    ultimately show "no_adjacent u (a # b # s)" using 3 by simp
  qed
qed

lemma strip_prefix: "s = rev (dropWhile P (rev s)) @ rev (takeWhile P (rev s))"
proof -
  have "rev s = takeWhile P (rev s) @ dropWhile P (rev s)" by simp
  then have "rev (rev s) = rev (takeWhile P (rev s) @ dropWhile P (rev s))" by simp
  then show ?thesis by (simp only: rev_rev_ident rev_append)
qed

lemma re_sub_underscores_at_end_plain:
  "CHR 0x0A \<notin> set s \<Longrightarrow> re_sub_underscores_at_end s = rev (dropWhile is_underscore (rev s))"
  by (cases "rev s") (auto simp: re_sub_underscores_at_end_def)

lemma strip_last: "rev (dropWhile P (rev s)) \<noteq> [] \<Longrightarrow> \<not> P (last (rev (dropWhile P (rev s))))"
  by (simp add: last_rev hd_dropWhile)

lemma newline_not_word: "is_not_word (CHR 0x0A)"
  by (simp add: is_not_word_def islower_def isupper_def isdigit_def)

lemma underscore_word: "\<not> is_not_word CHR ''_''"
  by (simp add: is_not_word_def)

lemma normalize_take_name_collapsed:
  "normalize_take_name raw = re_sub_underscores_at_end (collapsed raw)"
  by (simp add: normalize_take_name_def collapsed_def)

lemma collapsed_word: "c \<in> set (collapsed raw) \<Longrightarrow> \<not> is_not_word c"
proof -
  assume c: "c \<in> set (collapsed raw)"
  let ?w3 = "re_sub_runs is_not_word [] (re_sub_runs is_space_or_hyphen ''_'' (title raw))"
  from c have "c \<in> set ''_'' \<union> {c \<in> set ?w3. \<not> is_underscore c}"
    using set_re_sub_runs [of is_underscore "''_''" ?w3] by (auto simp: collapsed_def)
  moreover have "set ?w3 \<subseteq> {c. \<not> is_not_word c}"
    by (auto simp: re_sub_runs_filter)
  ultimately show ?thesis using underscore_word by auto
qed

lemma normalize_take_name_strip:
  "normalize_take_name raw = rev (dropWhile is_underscore (rev (collapsed raw)))"
proof -
  have "CHR 0x0A \<notin> set (collapsed raw)"
    using collapsed_word newline_not_word by blast
  then show ?thesis
    by (simp add: normalize_take_name_collapsed re_sub_underscores_at_end_plain)
qed

lemma normalize_take_name_prefix:
  "\<exists>q. collapsed raw = normalize_take_name raw @ q"
  using strip_prefix [of "collapsed raw" is_underscore]
  by (metis normalize_take_name_strip)

lemma normalize_take_name_word: "c \<in> set (normalize_take_name raw) \<Longrightarrow> \<not> is_not_word c"
proof -
  assume c: "c \<in> set (normalize_take_name raw)"
  obtain q where "collapsed raw = normalize_take_name raw @ q"
    using normalize_take_name_prefix by blast
  with c have "c \<in> set (collapsed raw)" by simp
  then show ?thesis by (rule collapsed_word)
qed

lemma normalize_take_name_no_adjacent: "no_adjacent CHR ''_'' (normalize_take_name raw)"
proof -
  obtain q where q: "collapsed raw = normalize_take_name raw @ q"
    using normalize_take_name_prefix by blast
  have "no_adjacent CHR ''_'' (collapsed raw)"
    unfolding collapsed_def by (rule no_adjacent_collapse)
  with q show ?thesis by (metis no_adjacent_append)
qed

lemma normalize_take_name_last:
  "normalize_take_name raw \<noteq> [] \<Longrightarrow> last (normalize_take_name raw) \<noteq> CHR ''_''"
  using strip_last [of is_underscore "collapsed raw"]
  by (simp add: normalize_take_name_strip is_underscore_def)

lemma titled_title_from: "titled p (title_from p s)"
  by (induction p s rule: title_from.induct)
     (auto simp: islower_toupper isupper_tolower islower_not_isupper)

lemma title_from_titled: "titled p s \<Longrightarrow> title_from p s = s"
  by (induction p s rule: title_from.induct) (auto split: if_splits)

lemma titled_dropWhile:
  "\<forall>c. cls c \<longrightarrow> \<not> islower c \<and> \<not> isupper c \<Longrightarrow> titled False s \<Longrightarrow> titled False (dropWhile cls s)"
  by (induction s) auto

lemma titled_re_sub_runs:
  "\<forall>c. cls c \<longrightarrow> \<not> islower c \<and> \<not> isupper c \<Longrightarrow> titled p s \<Longrightarrow>
   titled p (re_sub_runs cls ''_'' s)"
proof (induction cls "''_''" s arbitrary: p rule: re_sub_runs.induct)
  case (1 cls)
  then show ?case by simp
next
  case (2 cls c s)
  show ?case
  proof (cases "cls c")
    case True
    with 2 have uc: "\<not> islower c \<and> \<not> isupper c" by blast
    with 2(4) have "titled False s" by simp
    with 2(3) have "titled False (dropWhile cls s)" by (rule titled_dropWhile)
    with 2(1) [OF True 2(3)] have "titled False (re_sub_runs cls ''_'' (dropWhile cls s))" .
    with True show ?thesis by (simp add: islower_def isupper_def)
  next
    case False
    with 2(2) [OF False 2(3)] 2(4) show ?thesis by (auto split: if_splits)
  qed
qed

lemma titled_append: "titled p (xs @ ys) \<Longrightarrow> titled p xs"
  by (induction p xs rule: titled.induct) (auto split: if_splits)

lemma re_sub_runs_id: "\<forall>c\<in>set s. \<not> cls c \<Longrightarrow> re_sub_runs cls repl s = s"
  by (induction s) auto

lemma set_title_from: "c \<in> set (title_from p s) \<Longrightarrow> c \<in> set s \<or> islower c \<or> isupper c"
  by (induction p s rule: title_from.induct)
     (auto simp: islower_toupper isupper_tolower split: if_splits)

lemma collapse_id: "no_adjacent CHR ''_'' s \<Longrightarrow> re_sub_runs is_underscore ''_'' s = s"
proof (induction is_underscore "''_''" s rule: re_sub_runs.induct)
  case 1
  then show ?case by simp
next
  case (2 c s)
  show ?case
  proof (cases "is_underscore c")
    case True
    with 2(3) have h: "s \<noteq> [] \<longrightarrow> \<not> is_underscore (hd s)" and t: "no_adjacent CHR ''_'' s"
      by (auto simp: no_adjacent_Cons is_underscore_def)
    from h have d: "dropWhile is_underscore s = s" by (cases s) auto
    with 2(1) [OF True] t have "re_sub_runs is_underscore ''_'' s = s" by simp
    with True d show ?thesis by (simp add: is_underscore_def)
  next
    case False
    with 2 show ?thesis by (simp add: no_adjacent_Cons)
  qed
qed

lemma space_or_hyphen_uncased: "is_space_or_hyphen c \<Longrightarrow> \<not> islower c \<and> \<not> isupper c"
  by (auto simp: is_space_or_hyphen_def isspace_def islower_def isupper_def)

lemma space_or_hyphen_not_word: "is_space_or_hyphen c \<Longrightarrow> is_not_word c"
  by (auto simp: is_space_or_hyphen_def isspace_def is_not_word_def islower_def isupper_def isdigit_def)

lemma underscore_uncased: "is_underscore c \<Longrightarrow> \<not> islower c \<and> \<not> isupper c"
  by (auto simp: is_underscore_def islower_def isupper_def)

lemma normalize_take_name_fixed:
  assumes t: "titled False s"
    and w: "\<forall>c\<in>set s. \<not> is_not_word c"
    and a: "no_adjacent CHR ''_'' s"
    and l: "s \<noteq> [] \<longrightarrow> last s \<noteq> CHR ''_''"
  shows "normalize_take_name s = s"
proof -
  have 1: "title s = s" using t by (simp add: title_def title_from_titled)
  have 2: "re_sub_runs is_space_or_hyphen ''_'' s = s"
    using w space_or_hyphen_not_word by (intro re_sub_runs_id) blast
  have 3: "re_sub_runs is_not_word [] s = s"
    using w by (intro re_sub_runs_id) blast
  have 4: "re_sub_runs is_underscore ''_'' s = s" using a by (rule collapse_id)
  have n: "CHR 0x0A \<notin> set s" using w newline_not_word by blast
  have "dropWhile is_underscore (rev s) = rev s"
    using l by (cases "rev s") (auto simp: is_underscore_def)
  then have 5: "re_sub_underscores_at_end s = s"
    using n by (simp add: re_sub_underscores_at_end_plain)
  show ?thesis by (simp add: normalize_take_name_def 1 2 3 4 5)
qed

lemma normalize_take_name_titled:
  assumes "\<forall>c\<in>set raw. \<not> is_not_word c \<or> is_space_or_hyphen c"
  shows "titled False (normalize_take_name raw)"
proof -
  let ?w1 = "title raw"
  let ?w2 = "re_sub_runs is_space_or_hyphen ''_'' ?w1"
  have t1: "titled False ?w1" by (simp add: title_def titled_title_from)
  have t2: "titled False ?w2"
  proof (rule titled_re_sub_runs)
    show "\<forall>c. is_space_or_hyphen c \<longrightarrow> \<not> islower c \<and> \<not> isupper c"
      using space_or_hyphen_uncased by blast
    show "titled False ?w1" by (rule t1)
  qed
  have "\<forall>c\<in>set ?w2. \<not> is_not_word c"
  proof
    fix c assume "c \<in> set ?w2"
    then have "c \<in> set ''_'' \<union> {c \<in> set ?w1. \<not> is_space_or_hyphen c}"
      using set_re_sub_runs [of is_space_or_hyphen "''_''" ?w1] by blast
    then consider "c = CHR ''_''" | "c \<in> set ?w1" "\<not> is_space_or_hyphen c" by auto
    then show "\<not> is_not_word c"
    proof cases
      case 1
      then show ?thesis by (simp add: underscore_word)
    next
      case 2
      then have "c \<in> set raw \<or> islower c \<or> isupper c"
        by (auto simp: title_def dest: set_title_from)
      with 2 assms show ?thesis by (auto simp: is_not_word_def)
    qed
  qed
  then have "re_sub_runs is_not_word [] ?w2 = ?w2" by (intro re_sub_runs_id) blast
  then have c: "collapsed raw = re_sub_runs is_underscore ''_'' ?w2"
    by (simp add: collapsed_def)
  have "titled False (re_sub_runs is_underscore ''_'' ?w2)"
  proof (rule titled_re_sub_runs)
    show "\<forall>c. is_underscore c \<longrightarrow> \<not> islower c \<and> \<not> isupper c"
      using underscore_uncased by blast
    show "titled False ?w2" by (rule t2)
  qed
  then have "titled False (collapsed raw)" by (simp only: c)
  moreover obtain q where "collapsed raw = normalize_take_name raw @ q"
    using normalize_take_name_prefix by blast
  ultimately show ?thesis by (metis titled_append)
qed

section \<open>What the handlers leave unchanged\<close>

lemma first_index_None: "first_index P xs = None \<longleftrightarrow> (\<forall>x\<in>set xs. \<not> P x)"
  by (induction xs) auto

lemma first_index_Some:
  "first_index P xs = Some i \<Longrightarrow> i < length xs \<and> P (xs ! i) \<and> (\<forall>j<i. \<not> P (xs ! j))"
proof (induction xs arbitrary: i)
  case Nil
  then show ?case by simp
next
  case (Cons x xs)
  show ?case
  proof (cases "P x")
    case True
    with Cons.prems show ?thesis by simp
  next
    case False
    with Cons.prems obtain k where k: "first_index P xs = Some k" "i = Suc k" by auto
    from Cons.IH [OF k(1)] False k(2) show ?thesis
      by (auto simp: less_Suc_eq_0_disj)
  qed
qed

lemma findText_found:
  "text \<in> set items \<Longrightarrow>
   0 \<le> findText items text \<and> findText items text < int (length items)
   \<and> items ! nat (findText items text) = text"
proof -
  assume "text \<in> set items"
  then have "first_index (\<lambda>x. x = text) items \<noteq> None"
    by (auto simp: first_index_None)
  then obtain i where i: "first_index (\<lambda>x. x = text) items = Some i" by blast
  from first_index_Some [OF i] i show ?thesis by (simp add: findText_def)
qed

lemma findText_not_found: "text \<notin> set items \<Longrightarrow> findText items text = - 1"
proof -
  assume "text \<notin> set items"
  then have "first_index (\<lambda>x. x = text) items = None"
    by (auto simp: first_index_None)
  then show ?thesis by (simp add: findText_def)
qed

lemma set_status_frame:
  "db (set_status st s) = db st"
  "tasks_treeWidget (set_status st s) = tasks_treeWidget st"
  "tasks_treeWidget_current (set_status st s) = tasks_treeWidget_current st"
  "takes_listWidget (set_status st s) = takes_listWidget st"
  "takes_listWidget_current (set_status st s) = takes_listWidget_current st"
  "versions (set_status st s) = versions st"
  "previous_versions_tableWidget_currentRow (set_status st s) = previous_versions_tableWidget_currentRow st"
  "statuses_comboBox (set_status st s) = statuses_comboBox st"
  "show_published_only_checkBox (set_status st s) = show_published_only_checkBox st"
  "version_count_spinBox (set_status st s) = version_count_spinBox st"
  by (simp_all add: set_status_def Let_def)

lemma set_status_accessors:
  "tasks_treeWidget_currentItem (set_status st s) = tasks_treeWidget_currentItem st"
  "takes_listWidget_currentItem (set_status st s) = takes_listWidget_currentItem st"
  by (simp_all add: tasks_treeWidget_currentItem_def takes_listWidget_currentItem_def set_status_frame
      split: option.splits)

lemma set_status_derived:
  "get_task (set_status st s) = get_task st"
  "current_take_name (set_status st s) = current_take_name st"
  by (simp_all add: get_task_def current_take_name_def set_status_accessors)

lemma clear_frame:
  "db (clear_previous_versions_tableWidget st) = db st"
  "tasks_treeWidget (clear_previous_versions_tableWidget st) = tasks_treeWidget st"
  "tasks_treeWidget_current (clear_previous_versions_tableWidget st) = tasks_treeWidget_current st"
  "takes_listWidget (clear_previous_versions_tableWidget st) = takes_listWidget st"
  "takes_listWidget_current (clear_previous_versions_tableWidget st) = takes_listWidget_current st"
  "versions (clear_previous_versions_tableWidget st) = []"
  "previous_versions_tableWidget_currentRow (clear_previous_versions_tableWidget st) = - 1"
  "statuses_comboBox (clear_previous_versions_tableWidget st) = statuses_comboBox st"
  "statuses_comboBox_currentIndex (clear_previous_versions_tableWidget st) = statuses_comboBox_currentIndex st"
  "show_published_only_checkBox (clear_previous_versions_tableWidget st) = show_published_only_checkBox st"
  "version_count_spinBox (clear_previous_versions_tableWidget st) = version_count_spinBox st"
  by (simp_all add: clear_previous_versions_tableWidget_def)

lemma clear_accessors:
  "tasks_treeWidget_currentItem (clear_previous_versions_tableWidget st) = tasks_treeWidget_currentItem st"
  "takes_listWidget_currentItem (clear_previous_versions_tableWidget st) = takes_listWidget_currentItem st"
  by (simp_all add: tasks_treeWidget_currentItem_def takes_listWidget_currentItem_def clear_frame
      split: option.splits)

lemma clear_derived:
  "get_task (clear_previous_versions_tableWidget st) = get_task st"
  "current_take_name (clear_previous_versions_tableWidget st) = current_take_name st"
  by (simp_all add: get_task_def current_take_name_def clear_accessors)

lemma update_cases:
  "update_previous_versions_tableWidget st =
     (case get_task st of
        None \<Rightarrow> clear_previous_versions_tableWidget st
      | Some t \<Rightarrow>
          if current_take_name st = [] then clear_previous_versions_tableWidget st
          else
            let vs = rev (take (version_count_spinBox st) (order_by_version_number_desc
                       (if show_published_only_checkBox st
                        then filter (\<lambda>v. is_published v = True)
                               (query_versions (db st) t (current_take_name st))
                        else query_versions (db st) t (current_take_name st))));
                st1 = (clear_previous_versions_tableWidget st)\<lparr>versions := vs\<rparr>
            in if vs \<noteq> [] then set_status st1 (status (last vs)) else st1)"
  by (simp add: update_previous_versions_tableWidget_def Let_def clear_derived clear_frame
      split: option.splits)

lemma update_frame:
  "db (update_previous_versions_tableWidget st) = db st"
  "tasks_treeWidget (update_previous_versions_tableWidget st) = tasks_treeWidget st"
  "tasks_treeWidget_current (update_previous_versions_tableWidget st) = tasks_treeWidget_current st"
  "takes_listWidget (update_previous_versions_tableWidget st) = takes_listWidget st"
  "takes_listWidget_current (update_previous_versions_tableWidget st) = takes_listWidget_current st"
  "previous_versions_tableWidget_currentRow (update_previous_versions_tableWidget st) = - 1"
  "statuses_comboBox (update_previous_versions_tableWidget st) = statuses_comboBox st"
  "show_published_only_checkBox (update_previous_versions_tableWidget st) = show_published_only_checkBox st"
  "version_count_spinBox (update_previous_versions_tableWidget st) = version_count_spinBox st"
  by (simp_all add: update_cases Let_def set_status_frame clear_frame split: option.splits)

lemma update_accessors:
  "tasks_treeWidget_currentItem (update_previous_versions_tableWidget st) = tasks_treeWidget_currentItem st"
  "takes_listWidget_currentItem (update_previous_versions_tableWidget st) = takes_listWidget_currentItem st"
  by (simp_all add: tasks_treeWidget_currentItem_def takes_listWidget_currentItem_def update_frame
      split: option.splits)

lemma update_derived:
  "get_task (update_previous_versions_tableWidget st) = get_task st"
  "current_take_name (update_previous_versions_tableWidget st) = current_take_name st"
  by (simp_all add: get_task_def current_take_name_def update_accessors)

lemma changed_cases:
  "takes_listWidget_changed st =
     (case get_task st of
        None \<Rightarrow> update_previous_versions_tableWidget st
      | Some t \<Rightarrow>
          (case first (order_by_version_number_desc
                        (query_versions (db st) t (current_take_name st))) of
             None \<Rightarrow> update_previous_versions_tableWidget st
           | Some v \<Rightarrow> set_status (update_previous_versions_tableWidget st) (status v)))"
  by (simp add: takes_listWidget_changed_def Let_def update_derived update_frame
      split: option.splits)

lemma changed_frame:
  "db (takes_listWidget_changed st) = db st"
  "tasks_treeWidget (takes_listWidget_changed st) = tasks_treeWidget st"
  "tasks_treeWidget_current (takes_listWidget_changed st) = tasks_treeWidget_current st"
  "takes_listWidget (takes_listWidget_changed st) = takes_listWidget st"
  "takes_listWidget_current (takes_listWidget_changed st) = takes_listWidget_current st"
  "previous_versions_tableWidget_currentRow (takes_listWidget_changed st) = - 1"
  "statuses_comboBox (takes_listWidget_changed st) = statuses_comboBox st"
  "show_published_only_checkBox (takes_listWidget_changed st) = show_published_only_checkBox st"
  "version_count_spinBox (takes_listWidget_changed st) = version_count_spinBox st"
  "versions (takes_listWidget_changed st) = versions (update_previous_versions_tableWidget st)"
  by (simp_all add: changed_cases set_status_frame update_frame split: option.splits)

section \<open>The listed versions\<close>

lemma desc_numbers:
  "map version_number (order_by_version_number_desc vs) = rev (sort (map version_number vs))"
proof -
  let ?ys = "order_by_version_number_desc vs"
  have "sorted (map (\<lambda>v. - version_number v) ?ys)"
    by (simp add: order_by_version_number_desc_def)
  then have "sorted_wrt (\<lambda>x y. - x \<le> - y) (map version_number ?ys)"
    by (simp add: sorted_wrt_map)
  then have "sorted (rev (map version_number ?ys))"
    by (simp add: sorted_wrt_rev)
  moreover have "mset (rev (map version_number ?ys)) = mset (map version_number vs)"
    unfolding order_by_version_number_desc_def by (metis mset_map mset_rev mset_sort)
  ultimately have "sort (map version_number vs) = rev (map version_number ?ys)"
    by (rule properties_for_sort [rotated])
  then show ?thesis by simp
qed

lemma shown_numbers:
  "map version_number (rev (take k (order_by_version_number_desc vs)))
   = drop (length vs - k) (sort (map version_number vs))"
proof -
  have "map version_number (rev (take k (order_by_version_number_desc vs)))
        = rev (take k (rev (sort (map version_number vs))))"
    by (simp only: rev_map [symmetric] take_map [symmetric] desc_numbers)
  also have "\<dots> = drop (length vs - k) (sort (map version_number vs))"
    by (simp add: rev_take)
  finally show ?thesis .
qed

lemma shown_sorted:
  "sorted (map version_number (rev (take k (order_by_version_number_desc vs))))"
  by (simp only: shown_numbers) (simp add: sorted_wrt_drop)

lemma sorted_le_last: "sorted xs \<Longrightarrow> x \<in> set xs \<Longrightarrow> x \<le> last (xs :: int list)"
  by (induction xs) auto

lemma shown_last_max:
  assumes "w \<in> set (rev (take k (order_by_version_number_desc vs)))"
  shows "version_number w \<le> version_number (last (rev (take k (order_by_version_number_desc vs))))"
proof -
  let ?zs = "rev (take k (order_by_version_number_desc vs))"
  from assms have ne: "?zs \<noteq> []"
    by (metis length_pos_if_in_set length_greater_0_conv)
  have "version_number w \<in> set (map version_number ?zs)" using assms by simp
  with shown_sorted [of k vs] have "version_number w \<le> last (map version_number ?zs)"
    by (rule sorted_le_last)
  with ne show ?thesis by (simp add: last_map)
qed

lemma desc_first:
  assumes "first (order_by_version_number_desc vs) = Some v"
  shows "v \<in> set vs \<and> (\<forall>w\<in>set vs. version_number w \<le> version_number v)"
proof -
  from assms obtain rest where r: "order_by_version_number_desc vs = v # rest"
    by (auto simp: first_def split: list.splits)
  have "set (order_by_version_number_desc vs) = set vs"
    by (simp add: order_by_version_number_desc_def)
  with r have s: "set vs = insert v (set rest)" by simp
  have "sorted (map (\<lambda>v. - version_number v) (order_by_version_number_desc vs))"
    by (simp add: order_by_version_number_desc_def)
  with r have "\<forall>w\<in>set rest. version_number w \<le> version_number v" by simp
  with s show ?thesis by simp
qed

lemma desc_first_None: "first (order_by_version_number_desc vs) = None \<longleftrightarrow> vs = []"
proof -
  have "length (order_by_version_number_desc vs) = length vs"
    by (simp add: order_by_version_number_desc_def)
  then have "order_by_version_number_desc vs = [] \<longleftrightarrow> vs = []" by (metis length_0_conv)
  then show ?thesis by (cases "order_by_version_number_desc vs") (auto simp: first_def)
qed

lemma update_versions:
  assumes "get_task st = Some t" and "takes_listWidget_currentItem st = Some tk" and "tk \<noteq> []"
  shows "versions (update_previous_versions_tableWidget st) =
           rev (take (version_count_spinBox st) (order_by_version_number_desc
             (if show_published_only_checkBox st
              then filter is_published (query_versions (db st) t tk)
              else query_versions (db st) t tk)))"
  using assms
  by (simp add: update_cases current_take_name_def Let_def set_status_frame)

lemma update_versions_form:
  "\<exists>k vs. versions (update_previous_versions_tableWidget st)
           = rev (take k (order_by_version_number_desc vs))"
proof -
  have e: "[] = rev (take 0 (order_by_version_number_desc []))" by simp
  show ?thesis
  proof (cases "get_task st")
    case None
    then have "versions (update_previous_versions_tableWidget st) = []"
      by (simp add: update_cases clear_frame)
    with e show ?thesis by metis
  next
    case (Some t)
    show ?thesis
    proof (cases "current_take_name st = []")
      case True
      with Some have "versions (update_previous_versions_tableWidget st) = []"
        by (simp add: update_cases clear_frame)
      with e show ?thesis by metis
    next
      case False
      with Some show ?thesis
        by (simp add: update_cases Let_def set_status_frame) blast
    qed
  qed
qed

section \<open>The status shown after a change of take\<close>

lemma set_status_shown:
  assumes "status_name s \<in> set (statuses_comboBox st)"
  shows "statuses_comboBox_currentText (set_status st s) = status_name s"
proof -
  from findText_found [OF assms]
  have f: "0 \<le> findText (statuses_comboBox st) (status_name s)"
    "findText (statuses_comboBox st) (status_name s) < int (length (statuses_comboBox st))"
    "statuses_comboBox st ! nat (findText (statuses_comboBox st) (status_name s)) = status_name s"
    by blast+
  then have "findText (statuses_comboBox st) (status_name s) \<noteq> - 1" by linarith
  with f show ?thesis
    by (simp add: set_status_def statuses_comboBox_currentText_def Let_def)
qed

lemma update_status_unchanged:
  assumes "get_task st = Some t" and "query_versions (db st) t (current_take_name st) = []"
  shows "statuses_comboBox_currentIndex (update_previous_versions_tableWidget st)
         = statuses_comboBox_currentIndex st"
proof -
  have "order_by_version_number_desc [] = []"
    by (simp add: order_by_version_number_desc_def)
  with assms show ?thesis
    by (simp add: update_cases Let_def clear_frame)
qed

lemma update_versions_unfiltered:
  assumes "get_task st = Some t" and "current_take_name st \<noteq> []"
    and "\<not> show_published_only_checkBox st"
  shows "versions (update_previous_versions_tableWidget st)
         = rev (take (version_count_spinBox st)
             (order_by_version_number_desc (query_versions (db st) t (current_take_name st))))"
  using assms by (simp add: update_cases Let_def set_status_frame)

section \<open>The take list\<close>

lemma in_list_fold:
  "fold (\<lambda>text in_list. if text = tk then True else in_list) xs b = (b \<or> tk \<in> set xs)"
  by (induction xs arbitrary: b) auto

lemma map_sort_key: "map f (sort_key f ps) = sort (map f ps)"
proof -
  have "mset (map f (sort_key f ps)) = mset (map f ps)" by simp
  moreover have "sorted (map f (sort_key f ps))" by (rule sorted_sort_key)
  ultimately show ?thesis by (rule properties_for_sort [symmetric])
qed

lemma sortItems_takes:
  "takes_listWidget (takes_listWidget_sortItems st) = sort (takes_listWidget st)"
  by (simp add: takes_listWidget_sortItems_def Let_def map_sort_key)

lemma setCurrentItem_takes:
  "takes_listWidget (takes_listWidget_setCurrentItem st item) = takes_listWidget st"
  "takes_listWidget_current (takes_listWidget_setCurrentItem st item) = item"
  by (simp_all add: takes_listWidget_setCurrentItem_def changed_frame)

lemma findItems_hd:
  assumes "takes_listWidget_findItems st text = item # rest"
  shows "item < length (takes_listWidget st) \<and> takes_listWidget st ! item = text"
proof -
  from assms have "item \<in> set (takes_listWidget_findItems st text)" by simp
  then show ?thesis by (simp add: takes_listWidget_findItems_def)
qed

lemma findItems_empty:
  "takes_listWidget_findItems st text = [] \<longleftrightarrow> text \<notin> set (takes_listWidget st)"
  by (auto simp: takes_listWidget_findItems_def filter_empty_conv in_set_conv_nth)

lemma add_take_new_name:
  assumes "takes_listWidget_currentItem st \<noteq> None"
    and "normalize_take_name raw \<noteq> []"
    and "normalize_take_name raw \<notin> set (takes_listWidget st)"
  shows "\<exists>st'. add_take_toolButton_clicked st (raw, True) = Inr st'
          \<and> takes_listWidget st' = sort (takes_listWidget st @ [normalize_take_name raw])
          \<and> sorted (takes_listWidget st')
          \<and> takes_listWidget_currentItem st' = Some (normalize_take_name raw)"
proof -
  let ?tk = "normalize_take_name raw"
  let ?st1 = "takes_listWidget_sortItems (takes_listWidget_addItems st [?tk])"
  have raw: "raw \<noteq> []"
    using assms(2) by (auto simp: normalize_take_name_def title_def re_sub_underscores_at_end_def)
  have t1: "takes_listWidget ?st1 = sort (takes_listWidget st @ [?tk])"
    by (simp add: sortItems_takes takes_listWidget_addItems_def)
  then have "?tk \<in> set (takes_listWidget ?st1)" by simp
  then have "takes_listWidget_findItems ?st1 ?tk \<noteq> []" by (simp add: findItems_empty)
  then obtain item rest where f: "takes_listWidget_findItems ?st1 ?tk = item # rest"
    by (cases "takes_listWidget_findItems ?st1 ?tk") auto
  let ?st2 = "takes_listWidget_setCurrentItem ?st1 (Some item)"
  from assms raw f have r: "add_take_toolButton_clicked st (raw, True) = Inr ?st2"
    unfolding add_take_toolButton_clicked_def Let_def in_list_fold by auto
  have t2: "takes_listWidget ?st2 = sort (takes_listWidget st @ [?tk])"
    by (simp only: setCurrentItem_takes t1)
  from findItems_hd [OF f] have "takes_listWidget_currentItem ?st2 = Some ?tk"
    by (simp add: takes_listWidget_currentItem_def setCurrentItem_takes)
  with r t2 show ?thesis by simp
qed

lemma add_take_new_name_example:
  "normalize_take_name ''foo bar'' = ''Foo_Bar''
   \<and> (\<exists>st'. add_take_toolButton_clicked example_ui (''foo bar'', True) = Inr st'
          \<and> takes_listWidget st' = [''Foo_Bar'', ''Main'']
          \<and> takes_listWidget_currentItem st' = Some ''Foo_Bar'')"
proof -
  have a: "takes_listWidget_currentItem example_ui \<noteq> None" by code_simp
  have n: "normalize_take_name ''foo bar'' = ''Foo_Bar''" by code_simp
  have b: "normalize_take_name ''foo bar'' \<noteq> []" by (simp add: n)
  have c: "normalize_take_name ''foo bar'' \<notin> set (takes_listWidget example_ui)" by code_simp
  have s: "sort (takes_listWidget example_ui @ [''Foo_Bar'']) = [''Foo_Bar'', ''Main'']" by code_simp
  from add_take_new_name [OF a b c] n s show ?thesis by auto
qed

section \<open>Selecting a task and a take\<close>

lemma find_entity_item_in_tree_widget_Some:
  assumes "find_entity_item_in_tree_widget e treeWidget = Some item"
  shows "item < length treeWidget \<and> treeWidget ! item = e"
proof -
  let ?items = "filter (\<lambda>i. entity_name (treeWidget ! i) = entity_name e) [0..<length treeWidget]"
  from assms have "List.find (\<lambda>i. treeWidget ! i = e) ?items = Some item"
    by (simp add: find_entity_item_in_tree_widget_def)
  then obtain j where j: "j < length ?items" "treeWidget ! (?items ! j) = e" "item = ?items ! j"
    by (auto simp: find_Some_iff)
  from j(1) j(3) have "item \<in> set ?items" by (metis nth_mem)
  then have "item < length treeWidget" by simp
  with j show ?thesis by simp
qed

lemma in_set_not_Nil: "x \<in> set xs \<Longrightarrow> xs \<noteq> []"
  by auto

lemma takes_setCurrentItem_tree:
  "tasks_treeWidget (takes_listWidget_setCurrentItem st item) = tasks_treeWidget st"
  "tasks_treeWidget_current (takes_listWidget_setCurrentItem st item) = tasks_treeWidget_current st"
  by (simp_all add: takes_listWidget_setCurrentItem_def changed_frame)

lemma takes_setCurrentItem_row:
  "takes_listWidget_current st \<noteq> item \<Longrightarrow>
   previous_versions_tableWidget_currentRow (takes_listWidget_setCurrentItem st item) = - 1"
  by (simp add: takes_listWidget_setCurrentItem_def changed_frame)

lemma takes_setCurrentItem_same:
  "takes_listWidget_current st = item \<Longrightarrow> takes_listWidget_setCurrentItem st item = st"
  by (simp add: takes_listWidget_setCurrentItem_def)

lemma takes_clear_frame:
  "tasks_treeWidget (takes_listWidget_clear st) = tasks_treeWidget st"
  "tasks_treeWidget_current (takes_listWidget_clear st) = tasks_treeWidget_current st"
  "takes_listWidget (takes_listWidget_clear st) = []"
  "takes_listWidget_current (takes_listWidget_clear st) = None"
  by (simp_all add: takes_listWidget_clear_def changed_frame)

lemma tasks_treeWidget_changed_task:
  assumes "tasks_treeWidget_currentItem st = Some (Task t)"
  shows "tasks_treeWidget (tasks_treeWidget_changed st) = tasks_treeWidget st"
    and "tasks_treeWidget_current (tasks_treeWidget_changed st) = tasks_treeWidget_current st"
    and "previous_versions_tableWidget_currentRow (tasks_treeWidget_changed st) = - 1"
proof -
  let ?c = "takes_listWidget_clear st"
  let ?found = "distinct_values (map take_name (filter (\<lambda>v. task v = t) (db ?c)))"
  let ?takes = "if version_take_name \<notin> set ?found then ?found @ [version_take_name] else ?found"
  let ?a = "takes_listWidget_addItems ?c ?takes"
  have ne: "?takes \<noteq> []"
  proof (cases "version_take_name \<in> set ?found")
    case True
    then have "?found \<noteq> []" by (rule in_set_not_Nil)
    with True show ?thesis by simp
  next
    case False
    then show ?thesis by simp
  qed
  then have l: "length ?takes \<noteq> 0" by simp
  have e: "tasks_treeWidget_changed st = takes_listWidget_setCurrentItem ?a (takes_listWidget_item ?a 0)"
    unfolding tasks_treeWidget_changed_def Let_def
    by (simp only: assms l option.case entity.case if_False)
  have ta: "takes_listWidget ?a = ?takes"
    by (simp add: takes_listWidget_addItems_def takes_clear_frame)
  with ne have i: "takes_listWidget_item ?a 0 = Some 0"
    by (simp add: takes_listWidget_item_def)
  have ca: "takes_listWidget_current ?a = None"
    by (simp add: takes_listWidget_addItems_def takes_clear_frame)
  show "tasks_treeWidget (tasks_treeWidget_changed st) = tasks_treeWidget st"
    by (simp add: e takes_setCurrentItem_tree takes_listWidget_addItems_def takes_clear_frame)
  show "tasks_treeWidget_current (tasks_treeWidget_changed st) = tasks_treeWidget_current st"
    by (simp add: e takes_setCurrentItem_tree takes_listWidget_addItems_def takes_clear_frame)
  show "previous_versions_tableWidget_currentRow (tasks_treeWidget_changed st) = - 1"
  proof -
    have "takes_listWidget_current ?a \<noteq> Some 0" by (simp only: ca) simp
    then show ?thesis unfolding e i by (rule takes_setCurrentItem_row)
  qed
qed

lemma tasks_setCurrentItem_task:
  assumes "item < length (tasks_treeWidget st)" and "tasks_treeWidget st ! item = Task t"
  shows "tasks_treeWidget (tasks_treeWidget_setCurrentItem st item) = tasks_treeWidget st"
    and "tasks_treeWidget_current (tasks_treeWidget_setCurrentItem st item) = Some item"
    and "tasks_treeWidget_current st \<noteq> Some item \<Longrightarrow>
         previous_versions_tableWidget_currentRow (tasks_treeWidget_setCurrentItem st item) = - 1"
    and "tasks_treeWidget_current st = Some item \<Longrightarrow> tasks_treeWidget_setCurrentItem st item = st"
proof -
  let ?s = "st\<lparr>tasks_treeWidget_current := Some item\<rparr>"
  from assms have c: "tasks_treeWidget_currentItem ?s = Some (Task t)"
    by (simp add: tasks_treeWidget_currentItem_def)
  note ch = tasks_treeWidget_changed_task [OF c]
  show "tasks_treeWidget (tasks_treeWidget_setCurrentItem st item) = tasks_treeWidget st"
    by (simp add: tasks_treeWidget_setCurrentItem_def ch)
  show "tasks_treeWidget_current (tasks_treeWidget_setCurrentItem st item) = Some item"
    by (simp add: tasks_treeWidget_setCurrentItem_def ch)
  show "tasks_treeWidget_current st \<noteq> Some item \<Longrightarrow>
         previous_versions_tableWidget_currentRow (tasks_treeWidget_setCurrentItem st item) = - 1"
    by (simp add: tasks_treeWidget_setCurrentItem_def ch)
  show "tasks_treeWidget_current st = Some item \<Longrightarrow> tasks_treeWidget_setCurrentItem st item = st"
    by (simp add: tasks_treeWidget_setCurrentItem_def)
qed

text \<open>The only way \<open>restore_ui\<close> raises: the take of the reference is not in the list.\<close>

lemma restore_ui_raises:
  assumes "restore_ui st reference = Inl e"
  shows "e = IndexError \<and> (\<exists>v item. reference = Some v \<and> active (project (task v))
      \<and> find_entity_item_in_tree_widget (Task (task v)) (tasks_treeWidget st) = Some item
      \<and> take_name v \<notin> set (takes_listWidget (tasks_treeWidget_setCurrentItem st item)))"
  using assms
  by (auto simp: restore_ui_def Let_def findItems_empty [symmetric]
      split: option.splits if_splits list.splits)

section \<open>The cache after a change of task or take\<close>

lemma reference_listing:
  "rev (take k (order_by_version_number_desc
     (if p then filter is_published (query_versions rows t tk) else query_versions rows t tk)))
   = list_versions_reference rows t tk p k"
  by (simp add: list_versions_reference_def query_versions_def
      order_by_version_number_desc_def Let_def)

lemma changed_versions:
  assumes "get_task s = Some t" and "takes_listWidget_currentItem s = Some tk"
  shows "versions (takes_listWidget_changed s)
         = (if tk = [] then []
            else list_versions_reference (db s) t tk
                   (show_published_only_checkBox s) (version_count_spinBox s))"
proof (cases "tk = []")
  case True
  with assms have "versions (update_previous_versions_tableWidget s) = []"
    by (simp add: update_cases current_take_name_def clear_frame)
  with True show ?thesis by (simp add: changed_frame)
next
  case False
  with assms show ?thesis
    by (simp add: changed_frame update_versions reference_listing)
qed

lemma get_task_cong:
  "tasks_treeWidget s' = tasks_treeWidget s \<Longrightarrow>
   tasks_treeWidget_current s' = tasks_treeWidget_current s \<Longrightarrow> get_task s' = get_task s"
  by (simp add: get_task_def tasks_treeWidget_currentItem_def split: option.splits)

lemma takes_setCurrentItem_settings:
  "db (takes_listWidget_setCurrentItem s item) = db s"
  "show_published_only_checkBox (takes_listWidget_setCurrentItem s item)
     = show_published_only_checkBox s"
  "version_count_spinBox (takes_listWidget_setCurrentItem s item) = version_count_spinBox s"
  by (simp_all add: takes_listWidget_setCurrentItem_def changed_frame)

lemma takes_clear_settings:
  "db (takes_listWidget_clear s) = db s"
  "show_published_only_checkBox (takes_listWidget_clear s) = show_published_only_checkBox s"
  "version_count_spinBox (takes_listWidget_clear s) = version_count_spinBox s"
  by (simp_all add: takes_listWidget_clear_def changed_frame)

text \<open>After a change of the current take the cache is the listing of the current task and take.\<close>

lemma takes_setCurrentItem_versions:
  assumes "takes_listWidget_current s \<noteq> Some i"
    and "get_task s = Some t"
    and "i < length (takes_listWidget s)"
  shows "versions (takes_listWidget_setCurrentItem s (Some i))
         = (if takes_listWidget s ! i = [] then []
            else list_versions_reference (db s) t (takes_listWidget s ! i)
                   (show_published_only_checkBox s) (version_count_spinBox s))"
proof -
  let ?s = "s\<lparr>takes_listWidget_current := Some i\<rparr>"
  have "get_task ?s = get_task s" by (rule get_task_cong) simp_all
  with assms(2) have g: "get_task ?s = Some t" by simp
  have c: "takes_listWidget_currentItem ?s = Some (takes_listWidget s ! i)"
    using assms(3) by (simp add: takes_listWidget_currentItem_def)
  from changed_versions [OF g c] assms(1) show ?thesis
    by (simp add: takes_listWidget_setCurrentItem_def)
qed

lemma tasks_treeWidget_changed_listing:
  assumes "tasks_treeWidget_currentItem s = Some (Task t)"
  shows "takes_listWidget_current (tasks_treeWidget_changed s) = Some 0"
    and "takes_listWidget (tasks_treeWidget_changed s) \<noteq> []"
    and "db (tasks_treeWidget_changed s) = db s"
    and "show_published_only_checkBox (tasks_treeWidget_changed s) = show_published_only_checkBox s"
    and "version_count_spinBox (tasks_treeWidget_changed s) = version_count_spinBox s"
    and "versions (tasks_treeWidget_changed s)
         = (if takes_listWidget (tasks_treeWidget_changed s) ! 0 = [] then []
            else list_versions_reference (db s) t (takes_listWidget (tasks_treeWidget_changed s) ! 0)
                   (show_published_only_checkBox s) (version_count_spinBox s))"
proof -
  let ?c = "takes_listWidget_clear s"
  let ?found = "distinct_values (map take_name (filter (\<lambda>v. task v = t) (db ?c)))"
  let ?takes = "if version_take_name \<notin> set ?found then ?found @ [version_take_name] else ?found"
  let ?a = "takes_listWidget_addItems ?c ?takes"
  have ne: "?takes \<noteq> []"
  proof (cases "version_take_name \<in> set ?found")
    case True
    then have "?found \<noteq> []" by (rule in_set_not_Nil)
    with True show ?thesis by simp
  next
    case False
    then show ?thesis by simp
  qed
  then have l: "length ?takes \<noteq> 0" by simp
  have e: "tasks_treeWidget_changed s = takes_listWidget_setCurrentItem ?a (takes_listWidget_item ?a 0)"
    unfolding tasks_treeWidget_changed_def Let_def
    by (simp only: assms l option.case entity.case if_False)
  have ta: "takes_listWidget ?a = ?takes"
    by (simp add: takes_listWidget_addItems_def takes_clear_frame)
  with ne have i: "takes_listWidget_item ?a 0 = Some 0"
    by (simp add: takes_listWidget_item_def)
  have ca: "takes_listWidget_current ?a = None"
    by (simp add: takes_listWidget_addItems_def takes_clear_frame)
  then have ca': "takes_listWidget_current ?a \<noteq> Some 0" by simp
  have sa: "db ?a = db s" "show_published_only_checkBox ?a = show_published_only_checkBox s"
    "version_count_spinBox ?a = version_count_spinBox s"
    by (simp_all add: takes_listWidget_addItems_def takes_clear_settings)
  have "get_task ?a = get_task s"
    by (rule get_task_cong) (simp_all add: takes_listWidget_addItems_def takes_clear_frame)
  with assms have ga: "get_task ?a = Some t" by (simp add: get_task_def)
  from ne ta have la: "0 < length (takes_listWidget ?a)" by simp
  have tr: "takes_listWidget (tasks_treeWidget_changed s) = takes_listWidget ?a"
    by (simp only: e i setCurrentItem_takes)
  show "takes_listWidget_current (tasks_treeWidget_changed s) = Some 0"
    by (simp only: e i setCurrentItem_takes)
  show "takes_listWidget (tasks_treeWidget_changed s) \<noteq> []"
    using ne ta by (simp only: tr) simp
  show "db (tasks_treeWidget_changed s) = db s"
    by (simp only: e takes_setCurrentItem_settings sa)
  show "show_published_only_checkBox (tasks_treeWidget_changed s) = show_published_only_checkBox s"
    by (simp only: e takes_setCurrentItem_settings sa)
  show "version_count_spinBox (tasks_treeWidget_changed s) = version_count_spinBox s"
    by (simp only: e takes_setCurrentItem_settings sa)
  from takes_setCurrentItem_versions [OF ca' ga la]
  show "versions (tasks_treeWidget_changed s)
         = (if takes_listWidget (tasks_treeWidget_changed s) ! 0 = [] then []
            else list_versions_reference (db s) t (takes_listWidget (tasks_treeWidget_changed s) ! 0)
                   (show_published_only_checkBox s) (version_count_spinBox s))"
    by (simp only: tr sa) (simp only: e i)
qed

lemma tasks_setCurrentItem_settings:
  assumes "item < length (tasks_treeWidget st)" and "tasks_treeWidget st ! item = Task t"
  shows "db (tasks_treeWidget_setCurrentItem st item) = db st"
    and "show_published_only_checkBox (tasks_treeWidget_setCurrentItem st item)
         = show_published_only_checkBox st"
    and "version_count_spinBox (tasks_treeWidget_setCurrentItem st item) = version_count_spinBox st"
proof -
  let ?s = "st\<lparr>tasks_treeWidget_current := Some item\<rparr>"
  from assms have c: "tasks_treeWidget_currentItem ?s = Some (Task t)"
    by (simp add: tasks_treeWidget_currentItem_def)
  note ch = tasks_treeWidget_changed_listing [OF c]
  show "db (tasks_treeWidget_setCurrentItem st item) = db st"
    by (simp add: tasks_treeWidget_setCurrentItem_def ch)
  show "show_published_only_checkBox (tasks_treeWidget_setCurrentItem st item)
         = show_published_only_checkBox st"
    by (simp add: tasks_treeWidget_setCurrentItem_def ch)
  show "version_count_spinBox (tasks_treeWidget_setCurrentItem st item) = version_count_spinBox st"
    by (simp add: tasks_treeWidget_setCurrentItem_def ch)
qed

section \<open>The claims\<close>

text \<open>
  C4, as amended. Normalizing twice gives the same take name as normalizing once for
  every input made only of ASCII letters, digits, underscores, white space and hyphens,
  the characters that the third step does not remove. (Where the third step removes a
  character between two letters, the second letter was upper-cased by the first pass and is
  lower-cased by the second.)
\<close>

theorem normalize_take_name_idempotent_on_kept_characters:
  assumes "\<forall>c\<in>set raw. \<not> is_not_word c \<or> is_space_or_hyphen c"
  shows "normalize_take_name (normalize_take_name raw) = normalize_take_name raw"
  using normalize_take_name_titled [OF assms] normalize_take_name_word [of _ raw]
    normalize_take_name_no_adjacent [of raw] normalize_take_name_last [of raw]
  by (intro normalize_take_name_fixed) blast+

theorem normalize_take_name_idempotent_witness:
  "list_all (\<lambda>c. \<not> is_not_word c \<or> is_space_or_hyphen c) ''foo - bar_1'' \<and>
   normalize_take_name (normalize_take_name ''foo - bar_1'') = normalize_take_name ''foo - bar_1''"
proof -
  have h: "list_all (\<lambda>c. \<not> is_not_word c \<or> is_space_or_hyphen c) ''foo - bar_1''"
    by code_simp
  then have "\<forall>c\<in>set ''foo - bar_1''. \<not> is_not_word c \<or> is_space_or_hyphen c"
    by (simp only: list_all_iff)
  from normalize_take_name_idempotent_on_kept_characters [OF this] h show ?thesis
    by blast
qed

text \<open>
  C4 as stated fails: \<open>a!b\<close> is normalized to \<open>AB\<close>, and \<open>AB\<close> to \<open>Ab\<close>.
\<close>

theorem normalize_take_name_not_idempotent:
  "normalize_take_name (normalize_take_name ''a!b'') \<noteq> normalize_take_name ''a!b''"
  by code_simp

text \<open>
  C5, as amended. A non-empty normalized take name does not end with an underscore, and no
  normalized take name has two consecutive underscores. (A leading underscore is kept.)
\<close>

theorem normalize_take_name_underscores:
  "(normalize_take_name raw \<noteq> [] \<longrightarrow> last (normalize_take_name raw) \<noteq> CHR ''_'')
   \<and> \<not> (\<exists>p q. normalize_take_name raw = p @ ''__'' @ q)"
  using normalize_take_name_last [of raw] normalize_take_name_no_adjacent [of raw]
  by (simp only: no_adjacent_iff) blast

theorem normalize_take_name_underscores_witness:
  "normalize_take_name ''foo -_bar__'' \<noteq> [] \<and>
   last (normalize_take_name ''foo -_bar__'') \<noteq> CHR ''_'' \<and>
   \<not> (\<exists>p q. normalize_take_name ''foo -_bar__'' = p @ ''__'' @ q)"
proof -
  have h: "normalize_take_name ''foo -_bar__'' \<noteq> []"
    by code_simp
  from normalize_take_name_underscores [of "''foo -_bar__''"] h show ?thesis
    by blast
qed

text \<open>
  C5 as stated fails: the take name made from \<open>" a"\<close> is \<open>_A\<close>, with a leading
  underscore.
\<close>

theorem normalize_take_name_leading_underscore:
  "normalize_take_name '' a'' \<noteq> [] \<and> hd (normalize_take_name '' a'') = CHR ''_''"
  by code_simp

text \<open>
  C7. With a task and a non-empty take selected, the list that
  \<open>update_previous_versions_tableWidget\<close> puts in the table is the reference derivation
  for the current \<open>published_only\<close> and limit settings: the versions of that task and
  take, only the published ones when the box is checked, newest first, cut to the limit,
  reversed. It is ascending by version number; with the box checked it holds published
  versions only; with the box unchecked its version numbers are the last \<open>limit\<close> of the
  sorted version numbers of the task and take, so versions numbered 1 to 5 with a limit of 3
  are shown as 3, 4, 5.
\<close>

theorem update_previous_versions_tableWidget_lists:
  assumes "get_task st = Some t"
    and "takes_listWidget_currentItem st = Some tk"
    and "tk \<noteq> []"
  shows "versions (update_previous_versions_tableWidget st)
           = list_versions_reference (db st) t tk
               (show_published_only_checkBox st) (version_count_spinBox st)
     \<and> sorted (map version_number (versions (update_previous_versions_tableWidget st)))
     \<and> (show_published_only_checkBox st \<longrightarrow>
          (\<forall>v\<in>set (versions (update_previous_versions_tableWidget st)). is_published v))
     \<and> (\<not> show_published_only_checkBox st \<longrightarrow>
          map version_number (versions (update_previous_versions_tableWidget st))
            = drop (length (query_versions (db st) t tk) - version_count_spinBox st)
                (sort (map version_number (query_versions (db st) t tk))))
     \<and> (\<not> show_published_only_checkBox st
          \<and> sort (map version_number (query_versions (db st) t tk)) = [1, 2, 3, 4, 5]
          \<and> version_count_spinBox st = 3 \<longrightarrow>
          map version_number (versions (update_previous_versions_tableWidget st)) = [3, 4, 5])"
proof -
  let ?q = "query_versions (db st) t tk"
  let ?k = "version_count_spinBox st"
  let ?vs = "versions (update_previous_versions_tableWidget st)"
  have v: "?vs = rev (take ?k (order_by_version_number_desc
             (if show_published_only_checkBox st then filter is_published ?q else ?q)))"
    using assms by (rule update_versions)
  have 1: "?vs = list_versions_reference (db st) t tk (show_published_only_checkBox st) ?k"
    by (simp add: v list_versions_reference_def query_versions_def
        order_by_version_number_desc_def Let_def)
  have 2: "sorted (map version_number ?vs)"
    by (simp only: v shown_sorted)
  have 3: "show_published_only_checkBox st \<longrightarrow> (\<forall>v\<in>set ?vs. is_published v)"
  proof (intro impI ballI)
    fix x assume p: "show_published_only_checkBox st" and x: "x \<in> set ?vs"
    from x p have "x \<in> set (take ?k (order_by_version_number_desc (filter is_published ?q)))"
      by (simp add: v)
    then have "x \<in> set (order_by_version_number_desc (filter is_published ?q))"
      by (rule in_set_takeD)
    then show "is_published x" by (simp add: order_by_version_number_desc_def)
  qed
  have 4: "\<not> show_published_only_checkBox st \<longrightarrow>
      map version_number ?vs = drop (length ?q - ?k) (sort (map version_number ?q))"
    by (simp add: v shown_numbers)
  have 5: "\<not> show_published_only_checkBox st \<and> sort (map version_number ?q) = [1, 2, 3, 4, 5]
      \<and> ?k = 3 \<longrightarrow> map version_number ?vs = [3, 4, 5]"
  proof (intro impI)
    assume a: "\<not> show_published_only_checkBox st \<and> sort (map version_number ?q) = [1, 2, 3, 4, 5]
      \<and> ?k = 3"
    then have "length (sort (map version_number ?q)) = 5" by simp
    then have "length ?q = 5" by simp
    with a 4 show "map version_number ?vs = [3, 4, 5]" by simp
  qed
  from 1 2 3 4 5 show ?thesis by blast
qed

theorem update_previous_versions_tableWidget_lists_witness:
  "map version_number
     (versions (update_previous_versions_tableWidget
        (example_ui\<lparr>tasks_treeWidget_current := Some 1\<rparr>))) = [3, 4, 5]
   \<and> versions (update_previous_versions_tableWidget
        (example_ui\<lparr>tasks_treeWidget_current := Some 1\<rparr>))
       = list_versions_reference (db example_ui) example_task ''Main'' False 3"
proof -
  let ?S = "example_ui\<lparr>tasks_treeWidget_current := Some 1\<rparr>"
  have a: "get_task ?S = Some example_task" by code_simp
  have b: "takes_listWidget_currentItem ?S = Some ''Main''" by code_simp
  have c: "''Main'' \<noteq> []" by simp
  have d: "\<not> show_published_only_checkBox ?S" by code_simp
  have e: "sort (map version_number (query_versions (db ?S) example_task ''Main'')) = [1, 2, 3, 4, 5]"
    by code_simp
  have f: "version_count_spinBox ?S = 3" by code_simp
  have g: "db ?S = db example_ui" by simp
  note r = update_previous_versions_tableWidget_lists [OF a b c]
  from r d e f have "map version_number (versions (update_previous_versions_tableWidget ?S)) = [3, 4, 5]"
    by blast
  moreover from r g f d have "versions (update_previous_versions_tableWidget ?S)
      = list_versions_reference (db example_ui) example_task ''Main'' False 3"
    by metis
  ultimately show ?thesis by blast
qed

text \<open>
  C10. With no current row (index \<open>-1\<close>), \<open>get_previous_version\<close> returns the last
  version of the cache when the cache is not empty, and \<open>None\<close> when it is empty. After
  \<open>update_previous_versions_tableWidget\<close> no row is current, and the last version of the
  cache has the highest version number of the cache.
\<close>

theorem get_previous_version_without_current_row:
  "(previous_versions_tableWidget_currentRow st = - 1 \<longrightarrow>
      get_previous_version st = (if versions st = [] then None else Some (last (versions st))))
   \<and> previous_versions_tableWidget_currentRow (update_previous_versions_tableWidget st) = - 1
   \<and> (\<forall>w\<in>set (versions (update_previous_versions_tableWidget st)).
        version_number w
          \<le> version_number (last (versions (update_previous_versions_tableWidget st))))"
proof (intro conjI impI ballI)
  assume "previous_versions_tableWidget_currentRow st = - 1"
  then show "get_previous_version st = (if versions st = [] then None else Some (last (versions st)))"
    by (cases "versions st" rule: rev_cases) (simp_all add: get_previous_version_def Let_def nat_add_distrib)
next
  show "previous_versions_tableWidget_currentRow (update_previous_versions_tableWidget st) = - 1"
    by (simp add: update_frame)
next
  fix w assume w: "w \<in> set (versions (update_previous_versions_tableWidget st))"
  obtain k vs where "versions (update_previous_versions_tableWidget st)
      = rev (take k (order_by_version_number_desc vs))"
    using update_versions_form by blast
  with w shown_last_max [of w k vs]
  show "version_number w \<le> version_number (last (versions (update_previous_versions_tableWidget st)))"
    by simp
qed

theorem get_previous_version_without_current_row_witness:
  "previous_versions_tableWidget_currentRow (tasks_treeWidget_setCurrentItem example_ui 1) = - 1
   \<and> get_previous_version (tasks_treeWidget_setCurrentItem example_ui 1)
       = Some (example_version 5 ''Main'' False ''WIP'')"
proof -
  let ?S = "tasks_treeWidget_setCurrentItem example_ui 1"
  have h: "previous_versions_tableWidget_currentRow ?S = - 1" by code_simp
  have v: "versions ?S = [example_version 3 ''Main'' True ''CMPL'',
      example_version 4 ''Main'' True ''CMPL'', example_version 5 ''Main'' False ''WIP'']"
    by code_simp
  from get_previous_version_without_current_row [of ?S] h v show ?thesis by simp
qed

text \<open>
  C1. The handler tests the text for emptiness before it rewrites it, not after: the answer
  \<open>"  ---  "\<close> is rewritten to the empty take name, which is not in the list, so an
  empty entry is added to the list of a freshly opened dialog and becomes the current take.
\<close>

theorem add_take_toolButton_clicked_adds_empty_name:
  "normalize_take_name ''  ---  '' = []
   \<and> add_take_toolButton_clicked example_ui (''  ---  '', True)
     = Inr (example_ui\<lparr>takes_listWidget := [[], ''Main''], takes_listWidget_current := Some 0\<rparr>)
   \<and> takes_listWidget_currentItem
       (example_ui\<lparr>takes_listWidget := [[], ''Main''], takes_listWidget_current := Some 0\<rparr>)
     = Some []"
  by code_simp

text \<open>
  C2, as amended. When the take selection changes while a task is selected, the status
  shown afterwards is that of the version with the highest number among all versions of the
  task and take, published or not and whatever the limit, provided the combo box has an
  entry of that name. With the published-only box unchecked, a positive limit and a
  non-empty take name, this version is the last one of the displayed list. When the task
  and take have no version at all, the shown status is left as it was.
\<close>

theorem takes_listWidget_changed_status:
  assumes "get_task st = Some t"
  shows "(query_versions (db st) t (current_take_name st) = [] \<longrightarrow>
            statuses_comboBox_currentIndex (takes_listWidget_changed st)
              = statuses_comboBox_currentIndex st)
     \<and> (\<forall>v. first (order_by_version_number_desc
                      (query_versions (db st) t (current_take_name st))) = Some v \<longrightarrow>
            v \<in> set (query_versions (db st) t (current_take_name st))
          \<and> (\<forall>w\<in>set (query_versions (db st) t (current_take_name st)).
                version_number w \<le> version_number v)
          \<and> (status_name (status v) \<in> set (statuses_comboBox st) \<longrightarrow>
                statuses_comboBox_currentText (takes_listWidget_changed st)
                  = status_name (status v))
          \<and> (\<not> show_published_only_checkBox st \<and> 0 < version_count_spinBox st
               \<and> current_take_name st \<noteq> [] \<longrightarrow>
                versions (takes_listWidget_changed st) \<noteq> []
                \<and> last (versions (takes_listWidget_changed st)) = v))"
proof (intro conjI impI allI)
  let ?q = "query_versions (db st) t (current_take_name st)"
  {
    assume e: "?q = []"
    then have "first (order_by_version_number_desc ?q) = None"
      by (simp add: desc_first_None)
    with assms have "takes_listWidget_changed st = update_previous_versions_tableWidget st"
      by (simp add: changed_cases)
    with assms e show "statuses_comboBox_currentIndex (takes_listWidget_changed st)
        = statuses_comboBox_currentIndex st"
      by (simp add: update_status_unchanged)
  }
  fix v
  assume f: "first (order_by_version_number_desc ?q) = Some v"
  from desc_first [OF f] show "v \<in> set ?q" by blast
  from desc_first [OF f] show "\<forall>w\<in>set ?q. version_number w \<le> version_number v" by blast
  from assms f have c: "takes_listWidget_changed st
      = set_status (update_previous_versions_tableWidget st) (status v)"
    by (simp add: changed_cases)
  {
    assume "status_name (status v) \<in> set (statuses_comboBox st)"
    then have "status_name (status v) \<in> set (statuses_comboBox (update_previous_versions_tableWidget st))"
      by (simp add: update_frame)
    then show "statuses_comboBox_currentText (takes_listWidget_changed st) = status_name (status v)"
      unfolding c by (rule set_status_shown)
  }
  {
    assume a: "\<not> show_published_only_checkBox st \<and> 0 < version_count_spinBox st
               \<and> current_take_name st \<noteq> []"
    from f obtain rest where r: "order_by_version_number_desc ?q = v # rest"
      by (auto simp: first_def split: list.splits)
    from a obtain k where k: "version_count_spinBox st = Suc k"
      by (cases "version_count_spinBox st") auto
    have "versions (takes_listWidget_changed st)
        = rev (take (version_count_spinBox st) (order_by_version_number_desc ?q))"
      using assms a by (simp add: changed_frame update_versions_unfiltered)
    then have "versions (takes_listWidget_changed st) = rev (take k rest) @ [v]"
      by (simp add: r k)
    then show "versions (takes_listWidget_changed st) \<noteq> []"
      and "last (versions (takes_listWidget_changed st)) = v"
      by simp_all
  }
qed

theorem takes_listWidget_changed_status_witness:
  "get_task (example_ui\<lparr>tasks_treeWidget_current := Some 1\<rparr>) = Some example_task
   \<and> statuses_comboBox_currentText
       (takes_listWidget_changed (example_ui\<lparr>tasks_treeWidget_current := Some 1\<rparr>)) = ''WIP''
   \<and> last (versions
       (takes_listWidget_changed (example_ui\<lparr>tasks_treeWidget_current := Some 1\<rparr>)))
       = example_version 5 ''Main'' False ''WIP''"
proof -
  let ?S = "example_ui\<lparr>tasks_treeWidget_current := Some 1\<rparr>"
  let ?v = "example_version 5 ''Main'' False ''WIP''"
  have a: "get_task ?S = Some example_task" by code_simp
  have f: "first (order_by_version_number_desc
             (query_versions (db ?S) example_task (current_take_name ?S))) = Some ?v"
    by code_simp
  have m: "status_name (status ?v) \<in> set (statuses_comboBox ?S)" by code_simp
  have n: "status_name (status ?v) = ''WIP''" by code_simp
  have p: "\<not> show_published_only_checkBox ?S \<and> 0 < version_count_spinBox ?S
      \<and> current_take_name ?S \<noteq> []" by code_simp
  note r = takes_listWidget_changed_status [OF a]
  from r f m have "statuses_comboBox_currentText (takes_listWidget_changed ?S)
      = status_name (status ?v)" by blast
  moreover from r f p have "last (versions (takes_listWidget_changed ?S)) = ?v" by blast
  ultimately show ?thesis using a n by simp
qed

text \<open>
  C2 as stated fails: with the published-only box checked, selecting the task lists the
  published versions 1, 3 and 4, the last of them with status CMPL, and the combo box shows
  WIP, the status of the unpublished version 5.
\<close>

theorem takes_listWidget_changed_status_not_of_list:
  "versions (tasks_treeWidget_setCurrentItem
       (example_ui\<lparr>show_published_only_checkBox := True\<rparr>) 1)
     = [example_version 1 ''Main'' True ''CMPL'', example_version 3 ''Main'' True ''CMPL'',
        example_version 4 ''Main'' True ''CMPL'']
   \<and> status_name (status (last (versions (tasks_treeWidget_setCurrentItem
       (example_ui\<lparr>show_published_only_checkBox := True\<rparr>) 1)))) = ''CMPL''
   \<and> statuses_comboBox_currentText (tasks_treeWidget_setCurrentItem
       (example_ui\<lparr>show_published_only_checkBox := True\<rparr>) 1) = ''WIP''"
  by code_simp

text \<open>
  C3. \<open>restore_ui\<close> raises when the take of the reference is not in the take list. Here
  the task is already current, so selecting it again does not refill the take list, and a
  version of a take "Alt" has been stored since the list was filled: \<open>items[0]\<close> on the
  empty result of \<open>findItems\<close> is an \<open>IndexError\<close>.
\<close>

theorem restore_ui_take_not_listed:
  "takes_listWidget
     ((tasks_treeWidget_setCurrentItem example_ui 1)
        \<lparr>db := db example_ui @ [(example_version 6 ''Alt'' False ''WIP'')\<lparr>version_number := 1\<rparr>]\<rparr>)
     = [''Main'']
   \<and> restore_ui
       ((tasks_treeWidget_setCurrentItem example_ui 1)
          \<lparr>db := db example_ui @ [(example_version 6 ''Alt'' False ''WIP'')\<lparr>version_number := 1\<rparr>]\<rparr>)
       (Some ((example_version 6 ''Alt'' False ''WIP'')\<lparr>version_number := 1\<rparr>))
     = Inl IndexError"
  by code_simp

text \<open>
  C6, as amended. When a take is current and the normalized name is already in the take
  list, the handler changes nothing: nothing is inserted and the current take, whichever
  it is, stays current.
\<close>

theorem add_take_toolButton_clicked_known_name:
  assumes "takes_listWidget_currentItem st \<noteq> None"
    and "normalize_take_name raw \<in> set (takes_listWidget st)"
  shows "add_take_toolButton_clicked st (raw, ok) = Inr st"
  using assms unfolding add_take_toolButton_clicked_def Let_def in_list_fold by auto

theorem add_take_toolButton_clicked_known_name_witness:
  "normalize_take_name ''main'' = ''Main''
   \<and> add_take_toolButton_clicked example_ui (''main'', True) = Inr example_ui"
proof -
  have a: "takes_listWidget_currentItem example_ui \<noteq> None" by code_simp
  have n: "normalize_take_name ''main'' = ''Main''" by code_simp
  have b: "normalize_take_name ''main'' \<in> set (takes_listWidget example_ui)" by code_simp
  from add_take_toolButton_clicked_known_name [OF a b] n show ?thesis by simp
qed

text \<open>
  C6 as stated fails: after the take "Alt" has been added and is current, the answer
  \<open>"main"\<close>, whose normalized form "Main" is in the list, leaves "Alt" current.
\<close>

theorem add_take_toolButton_clicked_selection_not_moved:
  "add_take_toolButton_clicked example_ui (''alt'', True)
     = Inr (example_ui\<lparr>takes_listWidget := [''Alt'', ''Main''], takes_listWidget_current := Some 0\<rparr>)
   \<and> normalize_take_name ''main'' = ''Main''
   \<and> add_take_toolButton_clicked
       (example_ui\<lparr>takes_listWidget := [''Alt'', ''Main''], takes_listWidget_current := Some 0\<rparr>)
       (''main'', True)
     = Inr (example_ui\<lparr>takes_listWidget := [''Alt'', ''Main''], takes_listWidget_current := Some 0\<rparr>)
   \<and> takes_listWidget_currentItem
       (example_ui\<lparr>takes_listWidget := [''Alt'', ''Main''], takes_listWidget_current := Some 0\<rparr>)
     = Some ''Alt''"
  by code_simp

text \<open>
  C8, as amended. When the restoration finds the task node and the take entry, and the
  reference version is not in the list of versions shown afterwards, the task node and
  the take entry are current. If both were current already, nothing is emitted, nothing is
  rebuilt and the dialog is left exactly as it was, the current row included. Otherwise
  the list has been rebuilt, that is, the cache is the listing of the reference's task and
  take for the current published-only and limit settings (empty for an empty take name),
  and no row is current.
\<close>

theorem restore_ui_version_not_listed:
  assumes a: "active (project (task v))"
    and f: "find_entity_item_in_tree_widget (Task (task v)) (tasks_treeWidget st) = Some item"
    and r: "restore_ui st (Some v) = Inr st'"
    and n: "v \<notin> set (versions st')"
  shows "tasks_treeWidget_currentItem st' = Some (Task (task v))
     \<and> takes_listWidget_currentItem st' = Some (take_name v)
     \<and> (tasks_treeWidget_current st = Some item
          \<and> takes_listWidget_current st
              = Some (hd (takes_listWidget_findItems st (take_name v))) \<longrightarrow> st' = st)
     \<and> (\<not> (tasks_treeWidget_current st = Some item
             \<and> takes_listWidget_current st
                 = Some (hd (takes_listWidget_findItems st (take_name v)))) \<longrightarrow>
          previous_versions_tableWidget_currentRow st' = - 1
          \<and> versions st'
              = (if take_name v = [] then []
                 else list_versions_reference (db st) (task v) (take_name v)
                        (show_published_only_checkBox st) (version_count_spinBox st)))"
proof -
  let ?st1 = "tasks_treeWidget_setCurrentItem st item"
  let ?L = "if take_name v = [] then []
            else list_versions_reference (db st) (task v) (take_name v)
                   (show_published_only_checkBox st) (version_count_spinBox st)"
  from find_entity_item_in_tree_widget_Some [OF f]
  have it: "item < length (tasks_treeWidget st)" "tasks_treeWidget st ! item = Task (task v)"
    by blast+
  note t1 = tasks_setCurrentItem_task [OF it]
  note s1 = tasks_setCurrentItem_settings [OF it]
  from a f r obtain item0 rest where fi: "takes_listWidget_findItems ?st1 (take_name v) = item0 # rest"
    by (cases "takes_listWidget_findItems ?st1 (take_name v)")
       (auto simp: restore_ui_def Let_def)
  note h0 = findItems_hd [OF fi]
  let ?st2 = "takes_listWidget_setCurrentItem ?st1 (Some item0)"
  have v2: "versions st' = versions ?st2"
    using a f r fi by (auto simp: restore_ui_def Let_def split: option.splits if_splits)
  with n have "first_index (\<lambda>prev_version. prev_version = v) (versions ?st2) = None"
    by (auto simp: first_index_None)
  with a f r fi have e: "st' = ?st2"
    by (simp add: restore_ui_def Let_def)
  have 1: "tasks_treeWidget_currentItem st' = Some (Task (task v))"
    using it by (simp add: e tasks_treeWidget_currentItem_def takes_setCurrentItem_tree t1)
  from h0 have 2: "takes_listWidget_currentItem st' = Some (take_name v)"
    by (simp add: e takes_listWidget_currentItem_def setCurrentItem_takes)
  have g1: "get_task ?st1 = Some (task v)"
    using it by (simp add: get_task_def tasks_treeWidget_currentItem_def t1)
  have 3: "st' = st" if c: "tasks_treeWidget_current st = Some item
      \<and> takes_listWidget_current st = Some (hd (takes_listWidget_findItems st (take_name v)))"
  proof -
    from c have s1: "?st1 = st" by (simp add: t1)
    with fi c have "takes_listWidget_current ?st1 = Some item0" by simp
    then have "?st2 = ?st1" by (rule takes_setCurrentItem_same)
    with e s1 show ?thesis by simp
  qed
  have 4: "previous_versions_tableWidget_currentRow st' = - 1 \<and> versions st' = ?L"
    if c: "\<not> (tasks_treeWidget_current st = Some item
      \<and> takes_listWidget_current st = Some (hd (takes_listWidget_findItems st (take_name v))))"
  proof (cases "takes_listWidget_current ?st1 = Some item0")
    case False
    then have "previous_versions_tableWidget_currentRow ?st2 = - 1"
      by (rule takes_setCurrentItem_row)
    moreover from takes_setCurrentItem_versions [OF False g1] h0
    have "versions ?st2 = ?L" by (simp add: s1)
    ultimately show ?thesis by (simp only: e)
  next
    case True
    then have s2: "?st2 = ?st1" by (rule takes_setCurrentItem_same)
    have ch: "tasks_treeWidget_current st \<noteq> Some item"
    proof
      assume x: "tasks_treeWidget_current st = Some item"
      then have "?st1 = st" by (simp add: t1)
      with True fi x c show False by simp
    qed
    then have row: "previous_versions_tableWidget_currentRow ?st1 = - 1" by (rule t1(3))
    let ?s = "st\<lparr>tasks_treeWidget_current := Some item\<rparr>"
    from ch have e1: "?st1 = tasks_treeWidget_changed ?s"
      by (simp add: tasks_treeWidget_setCurrentItem_def)
    from it have ci: "tasks_treeWidget_currentItem ?s = Some (Task (task v))"
      by (simp add: tasks_treeWidget_currentItem_def)
    note l = tasks_treeWidget_changed_listing [OF ci]
    from True l(1) have z: "item0 = 0" by (simp add: e1)
    from h0 z have tk: "takes_listWidget (tasks_treeWidget_changed ?s) ! 0 = take_name v"
      by (simp add: e1)
    from l(6) have "versions ?st1 = ?L" by (simp add: e1 tk)
    with row e s2 show ?thesis by simp
  qed
  from 1 2 3 4 show ?thesis by blast
qed

theorem restore_ui_version_not_listed_witness:
  "restore_ui example_ui (Some (example_version 1 ''Main'' True ''CMPL''))
     = Inr (tasks_treeWidget_setCurrentItem example_ui 1)
   \<and> tasks_treeWidget_currentItem (tasks_treeWidget_setCurrentItem example_ui 1)
       = Some (Task example_task)
   \<and> takes_listWidget_currentItem (tasks_treeWidget_setCurrentItem example_ui 1) = Some ''Main''
   \<and> previous_versions_tableWidget_currentRow (tasks_treeWidget_setCurrentItem example_ui 1) = - 1
   \<and> versions (tasks_treeWidget_setCurrentItem example_ui 1)
       = list_versions_reference (db example_ui) example_task ''Main'' False 3
   \<and> map version_number (list_versions_reference (db example_ui) example_task ''Main'' False 3)
       = [3, 4, 5]"
proof -
  let ?v = "example_version 1 ''Main'' True ''CMPL''"
  let ?S = "tasks_treeWidget_setCurrentItem example_ui 1"
  have a: "active (project (task ?v))" by code_simp
  have f: "find_entity_item_in_tree_widget (Task (task ?v)) (tasks_treeWidget example_ui) = Some 1"
    by code_simp
  have r: "restore_ui example_ui (Some ?v) = Inr ?S" by code_simp
  have n: "?v \<notin> set (versions ?S)" by code_simp
  have c: "\<not> (tasks_treeWidget_current example_ui = Some 1
      \<and> takes_listWidget_current example_ui
          = Some (hd (takes_listWidget_findItems example_ui (take_name ?v))))" by code_simp
  have t: "task ?v = example_task" "take_name ?v = ''Main''" by code_simp+
  have s: "show_published_only_checkBox example_ui = False" "version_count_spinBox example_ui = 3"
    by code_simp+
  have m: "map version_number (list_versions_reference (db example_ui) example_task ''Main'' False 3)
       = [3, 4, 5]" by code_simp
  from restore_ui_version_not_listed [OF a f r n] c r t s m show ?thesis by simp
qed

text \<open>
  C8 as stated fails: with the task and the take "Main" current, versions 3, 4, 5 listed
  and the row of version 5 current, restoring version 1 leaves that row current.
\<close>

theorem restore_ui_keeps_current_row:
  "restore_ui
     ((tasks_treeWidget_setCurrentItem example_ui 1)\<lparr>previous_versions_tableWidget_currentRow := 2\<rparr>)
     (Some (example_version 1 ''Main'' True ''CMPL''))
   = Inr ((tasks_treeWidget_setCurrentItem example_ui 1)\<lparr>previous_versions_tableWidget_currentRow := 2\<rparr>)
   \<and> example_version 1 ''Main'' True ''CMPL''
       \<notin> set (versions ((tasks_treeWidget_setCurrentItem example_ui 1)
                \<lparr>previous_versions_tableWidget_currentRow := 2\<rparr>))
   \<and> versions ((tasks_treeWidget_setCurrentItem example_ui 1)
                \<lparr>previous_versions_tableWidget_currentRow := 2\<rparr>)
       = [example_version 3 ''Main'' True ''CMPL'', example_version 4 ''Main'' True ''CMPL'',
          example_version 5 ''Main'' False ''WIP'']
   \<and> previous_versions_tableWidget_currentRow
       ((tasks_treeWidget_setCurrentItem example_ui 1)\<lparr>previous_versions_tableWidget_currentRow := 2\<rparr>)
       = 2"
  by code_simp

text \<open>
  C9. The handler reads the text of the current take before it asks for a name. After a
  project node has been selected the take list is empty and no take is current, so the
  handler raises: the answer \<open>"foo bar"\<close> never reaches the list. (With a take
  current, a new name is added, the list is sorted, here by character code, and the new
  entry is current: lemma \<open>add_take_new_name\<close>.)
\<close>

theorem add_take_toolButton_clicked_empty_list:
  "takes_listWidget (tasks_treeWidget_setCurrentItem example_ui 0) = []
   \<and> add_take_toolButton_clicked (tasks_treeWidget_setCurrentItem example_ui 0) (''foo bar'', True)
       = Inl AttributeError"
  by code_simp

end
